theory Spec2Isabelle
  imports Main "HOL-Library.Sublist"
begin

section \<open>Errors and outcomes of external calls\<close>

text \<open>
  The error classes of \<^verbatim>\<open>utils/errors.js\<close>: a message and an optional cause.
  \<open>LibError\<close> stands for an error thrown by a library (Playwright, pdf-lib, fs),
  carrying its message.
\<close>

datatype error =
    LibError string
  | ExportError string "error option"
  | SidebarError string "error option"
  | LinkCollectionError string "error option"
  | PdfExportError string "error option"
  | PdfMergeError string "error option"

text \<open>
  Every awaited call into the browser, the PDF library or the file system either
  resolves with a value or rejects with an error message. The functions below take
  the outcomes of the calls they make as data (a script of the outside world), so
  that every \<^verbatim>\<open>try\<close>/\<^verbatim>\<open>catch\<close> of the source is a branch of the model.
\<close>

datatype 'a outcome = Throws string | Returns 'a

text \<open>
  The effects a run has on the outside world, in the order they happen. Logger calls
  are recorded for the sidebar expander only; elsewhere they are left out, since the
  logger never throws and does not influence control flow.
\<close>

datatype event =
    LaunchBrowser
  | CloseBrowser
  | Goto string
  | AddStyleTag
  | ReplaceInternalLinks string
  | PrintPdf string nat "string option list"
  | ReadFile string
  | WriteFile string
  | CreateTempDir string
  | RemoveDir string
  | EvalExpandAll
  | ScrollIntoView
  | Click string
  | DebugTopItem nat
  | WarnJsExpandFailed
  | WarnAllClicksFailed nat nat
  | WarnSkipNonVisible nat nat
  | WarnItemError nat nat
  | WarnSubSidebarError nat
  | WarnTopItemError nat

section \<open>PdfExporter: rendering one page\<close>

record heading =
  hlevel :: int
  htext :: string
  hid :: string

record page_result =
  path :: string
  headings :: "heading list"
  url :: string

record exported_page = page_result +
  pageIndex :: nat

text \<open>
  What the browser answers while one URL is exported: one field per awaited call of
  \<^verbatim>\<open>exportPage\<close> and its helpers. \<open>skipToContent_height\<close> is the result of
  \<^verbatim>\<open>document.querySelector(selector)\<close> inside \<^verbatim>\<open>calculatePageHeight\<close>:
  \<open>None\<close> when no element matches, otherwise the element's \<^verbatim>\<open>offsetHeight\<close>.
  \<open>page_hrefs\<close> are the \<^verbatim>\<open>href\<close> attributes of the page's \<^verbatim>\<open>a[href]\<close> elements.
\<close>

record page_script =
  goto_result :: "unit outcome"
  addStyleTag_result :: "unit outcome"
  styleWait_result :: "unit outcome"
  page_hrefs :: "string list"
  replaceLinks_result :: "unit outcome"
  docCardListItem_count :: "nat outcome"
  pageContent_count :: "nat outcome"
  headings_eval :: "heading list outcome"
  skipToContent_height :: "nat option outcome"
  pdf_result :: "unit outcome"

definition isDocListPage :: "page_script \<Rightarrow> bool" where
  "isDocListPage ps =
     (case docCardListItem_count ps of
        Throws _ \<Rightarrow> False
      | Returns docCardListItemCount \<Rightarrow>
          (case pageContent_count ps of
             Throws _ \<Rightarrow> False
           | Returns pageContentCount \<Rightarrow>
               docCardListItemCount > 0 \<and> docCardListItemCount = pageContentCount))"

definition calculatePageHeight :: "page_script \<Rightarrow> nat" where
  "calculatePageHeight ps =
     (case skipToContent_height ps of
        Throws _ \<Rightarrow> 1000
      | Returns element \<Rightarrow>
          (case element of None \<Rightarrow> 0 | Some offsetHeight \<Rightarrow> offsetHeight + 60))"

text \<open>\<^verbatim>\<open>applyCustomStyles\<close> catches the error of either call and has no result;
  the model gives the effects.\<close>

definition applyCustomStyles :: "page_script \<Rightarrow> event list" where
  "applyCustomStyles ps =
     (case addStyleTag_result ps of
        Throws m \<Rightarrow> [AddStyleTag]
      | Returns _ \<Rightarrow>
          (case styleWait_result ps of
             Throws m \<Rightarrow> [AddStyleTag]
           | Returns _ \<Rightarrow> [AddStyleTag]))"

definition str_includes :: "string \<Rightarrow> string \<Rightarrow> bool" where
  "str_includes s sub = sublist sub s"

definition startsWith :: "string \<Rightarrow> string \<Rightarrow> bool" where
  "startsWith s pre = prefix pre s"

definition isLocalhost :: "string \<Rightarrow> string \<Rightarrow> bool" where
  "isLocalhost baseUrl href =
     (str_includes href ''localhost'' \<or>
      str_includes href ''127.0.0.1'' \<or>
      str_includes href ''git.localhost'' \<or>
      startsWith href baseUrl \<or>
      startsWith href ''/'' \<or>
      (\<not> startsWith href ''http'' \<and>
       \<not> startsWith href ''mailto:'' \<and>
       \<not> startsWith href ''#'' \<and>
       \<not> startsWith href ''javascript:''))"

text \<open>
  \<^verbatim>\<open>replaceInternalLinks\<close> works on the anchors' \<^verbatim>\<open>href\<close> attributes
  (\<open>None\<close>: attribute removed). An empty \<^verbatim>\<open>href\<close> is left alone
  (\<^verbatim>\<open>if (!href) return\<close>). When the evaluation rejects, the error is caught and the
  attributes are taken as unchanged.
\<close>

definition replaceLink :: "string \<Rightarrow> string option \<Rightarrow> string option" where
  "replaceLink baseUrl link =
     (case link of
        None \<Rightarrow> None
      | Some href \<Rightarrow>
          if href = [] then Some href
          else if isLocalhost baseUrl href then None
          else Some href)"

definition replaceInternalLinks ::
  "page_script \<Rightarrow> string \<Rightarrow> string option list \<Rightarrow> string option list \<times> event list" where
  "replaceInternalLinks ps baseUrl links =
     (case replaceLinks_result ps of
        Throws _ \<Rightarrow> (links, [ReplaceInternalLinks baseUrl])
      | Returns _ \<Rightarrow> (map (replaceLink baseUrl) links, [ReplaceInternalLinks baseUrl]))"

definition extractHeadings :: "page_script \<Rightarrow> heading list" where
  "extractHeadings ps =
     (case headings_eval ps of Throws _ \<Rightarrow> [] | Returns hs \<Rightarrow> hs)"

text \<open>JavaScript truthiness of an optional string argument: \<^verbatim>\<open>undefined\<close> and
  the empty string are falsy.\<close>

definition truthy :: "string option \<Rightarrow> bool" where
  "truthy b = (case b of None \<Rightarrow> False | Some s \<Rightarrow> s \<noteq> [])"

definition exportPage ::
  "page_script \<Rightarrow> string \<Rightarrow> string \<Rightarrow> string option
     \<Rightarrow> (error + page_result option) \<times> event list" where
  "exportPage ps u outputPath baseUrl =
     (case goto_result ps of
        Throws m \<Rightarrow>
          (Inl (PdfExportError (''Failed to export page '' @ u) (Some (LibError m))), [Goto u])
      | Returns _ \<Rightarrow>
          let links0 = map Some (page_hrefs ps);
              ev1 = [Goto u] @ applyCustomStyles ps;
              (links1, ev2) =
                 (case baseUrl of
                    None \<Rightarrow> (links0, [])
                  | Some b \<Rightarrow>
                      if truthy baseUrl then replaceInternalLinks ps b links0
                      else (links0, []));
              shouldSkip = isDocListPage ps
          in if shouldSkip then (Inr None, ev1 @ ev2)
             else
               let hs = extractHeadings ps;
                   height = calculatePageHeight ps;
                   ev3 = [PrintPdf outputPath height links1]
               in (case pdf_result ps of
                     Throws m \<Rightarrow>
                       (Inl (PdfExportError (''Failed to export page '' @ u)
                               (Some (LibError m))),
                        ev1 @ ev2 @ ev3)
                   | Returns _ \<Rightarrow>
                       (Inr (Some \<lparr>path = outputPath, headings = hs, url = u\<rparr>),
                        ev1 @ ev2 @ ev3)))"

text \<open>The decimal digits of a number, for the file name \<^verbatim>\<open>`${i}.pdf`\<close>.\<close>

fun string_of_nat :: "nat \<Rightarrow> string" where
  "string_of_nat n =
     (if n < 10 then [char_of (48 + n)]
      else string_of_nat (n div 10) @ [char_of (48 + n mod 10)])"

declare string_of_nat.simps [simp del]

text \<open>\<^verbatim>\<open>path.join\<close> on a directory and a plain file name; the normalisation
  of separators that Node performs is not modelled.\<close>

definition path_join :: "string \<Rightarrow> string \<Rightarrow> string" where
  "path_join dir fileName = dir @ ''/'' @ fileName"

text \<open>
  The loop of \<^verbatim>\<open>exportPages\<close>. \<open>w i\<close> is what the browser answers during
  iteration \<open>i\<close>. The loop state is \<^verbatim>\<open>exportedFiles\<close>, \<^verbatim>\<open>currentPageIndex\<close>
  and the effects so far. A thrown \<^verbatim>\<open>PdfExportError\<close> is caught and the loop goes on.
\<close>

fun exportPages_loop ::
  "(nat \<Rightarrow> page_script) \<Rightarrow> string \<Rightarrow> string option \<Rightarrow> nat \<Rightarrow> string list
     \<Rightarrow> exported_page list \<times> nat \<times> event list
     \<Rightarrow> exported_page list \<times> nat \<times> event list" where
  "exportPages_loop w outputDir baseUrl i [] st = st"
| "exportPages_loop w outputDir baseUrl i (u # us) (exportedFiles, currentPageIndex, evs) =
     (let fileName = string_of_nat i @ ''.pdf'';
          outputPath = path_join outputDir fileName;
          (r, ev) = exportPage (w i) u outputPath baseUrl
      in exportPages_loop w outputDir baseUrl (Suc i) us
           (case r of
              Inr (Some result) \<Rightarrow>
                (exportedFiles @
                   [\<lparr>path = path result, headings = headings result, url = url result,
                     pageIndex = currentPageIndex\<rparr>],
                 Suc currentPageIndex, evs @ ev)
            | Inr None \<Rightarrow> (exportedFiles, currentPageIndex, evs @ ev)
            | Inl err \<Rightarrow> (exportedFiles, currentPageIndex, evs @ ev)))"

definition exportPages ::
  "(nat \<Rightarrow> page_script) \<Rightarrow> string list \<Rightarrow> string \<Rightarrow> string option
     \<Rightarrow> exported_page list \<times> event list" where
  "exportPages w urls outputDir baseUrl =
     (case exportPages_loop w outputDir baseUrl 0 urls ([], 0, []) of
        (exportedFiles, currentPageIndex, evs) \<Rightarrow> (exportedFiles, evs))"

section \<open>PdfMerger: concatenating the artifacts\<close>

text \<open>
  What the file system and pdf-lib answer during \<^verbatim>\<open>merge\<close>. \<open>load_pages i p\<close> is
  the outcome, in iteration \<open>i\<close>, of reading the file at \<open>p\<close>, loading it and
  copying all of its pages (the three calls share one \<^verbatim>\<open>try\<close> block): the copied
  pages, or a rejection. Adding a copied page to the document does not fail. The last
  three fields are the calls that write the output: \<^verbatim>\<open>ensureDirectoryExists\<close>,
  \<^verbatim>\<open>pdfDoc.save\<close> (\<open>save_result pages\<close>: its outcome for the document to which
  \<open>pages\<close> have been added) and \<^verbatim>\<open>fs.writeFileSync\<close>.
\<close>

record 'pg merge_env =
  load_pages :: "nat \<Rightarrow> string \<Rightarrow> 'pg list outcome"
  ensureDir_result :: "string \<Rightarrow> unit outcome"
  save_result :: "'pg list \<Rightarrow> unit outcome"
  writeFile_result :: "string \<Rightarrow> unit outcome"

text \<open>
  The loop of \<^verbatim>\<open>merge\<close>. Its state: the pages of the growing document,
  \<^verbatim>\<open>pageOffset\<close>, the records already visited (with \<^verbatim>\<open>pageIndex\<close> rewritten
  where the artifact was merged) and the effects so far. The records of the input
  list are distinct objects, as \<^verbatim>\<open>exportPages\<close> builds them.
\<close>

fun merge_loop ::
  "'pg merge_env \<Rightarrow> nat \<Rightarrow> exported_page list
     \<Rightarrow> 'pg list \<times> nat \<times> exported_page list \<times> event list
     \<Rightarrow> 'pg list \<times> nat \<times> exported_page list \<times> event list" where
  "merge_loop env i [] st = st"
| "merge_loop env i (meta # rest) (pages, pageOffset, visited, evs) =
     (let localPath = path meta
      in merge_loop env (Suc i) rest
           (case load_pages env i localPath of
              Returns copiedPages \<Rightarrow>
                (pages @ copiedPages, pageOffset + length copiedPages,
                 visited @ [meta\<lparr>pageIndex := pageOffset\<rparr>], evs @ [ReadFile localPath])
            | Throws m \<Rightarrow>
                (pages, pageOffset, visited @ [meta], evs @ [ReadFile localPath])))"

text \<open>
  A page of the document that is written: a page copied from an artifact, or the blank
  page of pdf-lib. \<^verbatim>\<open>pdfDoc.save()\<close> is called without options, and the default
  of its option \<^verbatim>\<open>addDefaultPage\<close> is \<^verbatim>\<open>true\<close>: a document that has no page when
  it is saved gets one blank page.
\<close>

datatype 'pg doc_page = CopiedPage 'pg | DefaultPage

definition save :: "'pg list \<Rightarrow> 'pg doc_page list" where
  "save pages = (if pages = [] then [DefaultPage] else map CopiedPage pages)"

text \<open>
  \<^verbatim>\<open>merge\<close> returns the output path; the model also returns the pages of the
  document written there, the metadata list as the loop left it, and the effects.
  A missing metadata argument (\<^verbatim>\<open>undefined\<close>, \<^verbatim>\<open>null\<close>) is \<open>None\<close>.
\<close>

definition merge ::
  "'pg merge_env \<Rightarrow> exported_page list option \<Rightarrow> string
     \<Rightarrow> (error + string \<times> 'pg doc_page list) \<times> exported_page list \<times> event list" where
  "merge env metadata outputPath =
     (case metadata of
        None \<Rightarrow> (Inl (PdfMergeError ''No source files provided for merging'' None), [], [])
      | Some md \<Rightarrow>
          if length md = 0
          then (Inl (PdfMergeError ''No source files provided for merging'' None), md, [])
          else
            (case merge_loop env 0 md ([], 0, [], []) of
               (pages, pageOffset, md', evs) \<Rightarrow>
                 (case ensureDir_result env outputPath of
                    Throws m \<Rightarrow>
                      (Inl (PdfMergeError ''Failed to merge PDF files'' (Some (LibError m))),
                       md', evs)
                  | Returns _ \<Rightarrow>
                      (case save_result env pages of
                         Throws m \<Rightarrow>
                           (Inl (PdfMergeError ''Failed to merge PDF files''
                                   (Some (LibError m))),
                            md', evs)
                       | Returns _ \<Rightarrow>
                           (case writeFile_result env outputPath of
                              Throws m \<Rightarrow>
                                (Inl (PdfMergeError ''Failed to merge PDF files''
                                        (Some (LibError m))),
                                 md', evs @ [WriteFile outputPath])
                            | Returns _ \<Rightarrow>
                                (Inr (outputPath, save pages), md',
                                 evs @ [WriteFile outputPath]))))))"

section \<open>SidebarExpander: opening the navigation tree\<close>

text \<open>
  What the browser answers for one element that may be scrolled to and clicked: the
  two \<^verbatim>\<open>isVisible\<close> calls of \<^verbatim>\<open>ensureVisible\<close>, the scroll and the wait between
  them, and one outcome for each click strategy.
\<close>

record element_script =
  visible_before :: "bool outcome"
  scroll_result :: "unit outcome"
  visibleWait_result :: "unit outcome"
  visible_after :: "bool outcome"
  click_result :: "unit outcome"
  forceClick_result :: "unit outcome"
  javascriptClick_result :: "unit outcome"

text \<open>
  A collapsible item of the sidebar, with what the browser answers while the item is
  processed: its \<^verbatim>\<open>class\<close> attribute (\<open>None\<close>: no such attribute), the number of
  controls found inside it, the first such control and the item itself as elements,
  the wait after the click, and the items that the locator for the next level finds
  under the item's parent element (\<open>Throws\<close>: \<^verbatim>\<open>count()\<close> rejects).
\<close>

datatype nav_node =
  NavNode (class_attr: "string option outcome")
          (control_count: "nat outcome")
          (control: element_script)
          (self_element: element_script)
          (animation_wait: "unit outcome")
          (sub_items: "nav_node list outcome")

record expander_script =
  js1_eval_result :: "unit outcome"
  js1_wait_result :: "unit outcome"
  top_items :: "nav_node list outcome"
  js2_eval_result :: "unit outcome"
  js2_wait_result :: "unit outcome"
  final_wait_result :: "unit outcome"

text \<open>
  Sequencing and \<^verbatim>\<open>try\<close>/\<^verbatim>\<open>catch\<close> for computations that end in an outcome
  and leave effects: \<open>and_then\<close> runs the continuation when the first part returns
  and stops at its error otherwise; \<open>try_catch\<close> runs the handler on the error of
  the body.
\<close>

definition and_then ::
  "'a outcome \<times> event list \<Rightarrow> ('a \<Rightarrow> 'b outcome \<times> event list) \<Rightarrow> 'b outcome \<times> event list" where
  "and_then c f =
     (case c of
        (Throws m, evs) \<Rightarrow> (Throws m, evs)
      | (Returns v, evs) \<Rightarrow> (case f v of (r, evs') \<Rightarrow> (r, evs @ evs')))"

definition try_catch ::
  "'a outcome \<times> event list \<Rightarrow> (string \<Rightarrow> 'a outcome \<times> event list) \<Rightarrow> 'a outcome \<times> event list" where
  "try_catch body handler =
     (case body of
        (Throws m, evs) \<Rightarrow> (case handler m of (r, evs') \<Rightarrow> (r, evs @ evs'))
      | (Returns v, evs) \<Rightarrow> (Returns v, evs))"

definition expandAllWithJavaScript :: "unit outcome \<Rightarrow> unit outcome \<Rightarrow> bool outcome \<times> event list" where
  "expandAllWithJavaScript eval_result wait_result =
     try_catch
       (and_then (eval_result, [EvalExpandAll]) (\<lambda>_.
        and_then (wait_result, []) (\<lambda>_.
        (Returns True, []))))
       (\<lambda>m. (Returns False, [WarnJsExpandFailed]))"

text \<open>
  \<^verbatim>\<open>clickWithRetry\<close>: the strategies of the configuration in order. A name that
  is none of the three cases of the \<^verbatim>\<open>switch\<close> does nothing and the loop goes on;
  a strategy that throws is followed by the next one, and the last one's error is
  thrown to the caller.
\<close>

definition strategy_result :: "element_script \<Rightarrow> string \<Rightarrow> unit outcome option" where
  "strategy_result element strategy =
     (if strategy = ''click'' then Some (click_result element)
      else if strategy = ''forceClick'' then Some (forceClick_result element)
      else if strategy = ''javascriptClick'' then Some (javascriptClick_result element)
      else None)"

fun clickWithRetry ::
  "string list \<Rightarrow> element_script \<Rightarrow> nat \<Rightarrow> nat \<Rightarrow> unit outcome \<times> event list" where
  "clickWithRetry [] element level index = (Returns (), [])"
| "clickWithRetry (strategy # rest) element level index =
     (case strategy_result element strategy of
        None \<Rightarrow> clickWithRetry rest element level index
      | Some (Returns _) \<Rightarrow> (Returns (), [Click strategy])
      | Some (Throws m) \<Rightarrow>
          if rest = [] then (Throws m, [Click strategy, WarnAllClicksFailed (level + 1) index])
          else (case clickWithRetry rest element level index of
                  (r, evs) \<Rightarrow> (r, Click strategy # evs)))"

text \<open>\<^verbatim>\<open>promise.catch(() => d)\<close>: the value, or \<open>d\<close> when the call rejects.\<close>

definition caught :: "'a outcome \<Rightarrow> 'a \<Rightarrow> 'a" where
  "caught r d = (case r of Throws m \<Rightarrow> d | Returns v \<Rightarrow> v)"

definition ensureVisible :: "element_script \<Rightarrow> bool outcome \<times> event list" where
  "ensureVisible element =
     (let isVisible = caught (visible_before element) False
      in and_then
           (if \<not> isVisible
            then (case caught (scroll_result element) () of
                    _ \<Rightarrow> (visibleWait_result element, [ScrollIntoView]))
            else (Returns (), []))
           (\<lambda>_. (Returns (caught (visible_after element) False), [])))"

definition isActive :: "nav_node \<Rightarrow> bool" where
  "isActive node =
     (case caught (class_attr node) (Some []) of
        None \<Rightarrow> False
      | Some itemClass \<Rightarrow>
          itemClass \<noteq> [] \<and> str_includes itemClass ''menu__list-item-collapsible--active'')"

definition elementToClick :: "nav_node \<Rightarrow> element_script" where
  "elementToClick node =
     (let hasButton = caught (control_count node) 0
      in if hasButton > 0 then control node else self_element node)"

text \<open>
  \<^verbatim>\<open>expandSubSidebar\<close> with its two nested \<^verbatim>\<open>try\<close> blocks. \<open>expandSubItems\<close> is
  the \<^verbatim>\<open>for\<close> loop over the items found, \<open>i\<close> the loop index; \<open>expandSubItem\<close> is
  the loop body: the inner \<^verbatim>\<open>try\<close> block, \<open>subItem_try\<close>, with its handler, which
  logs and goes on with the next item.
\<close>

fun expandSubSidebar :: "string list \<Rightarrow> nav_node \<Rightarrow> nat \<Rightarrow> unit outcome \<times> event list"
  and subItem_try :: "string list \<Rightarrow> nav_node \<Rightarrow> nat \<Rightarrow> nat \<Rightarrow> unit outcome \<times> event list"
  and expandSubItem :: "string list \<Rightarrow> nav_node \<Rightarrow> nat \<Rightarrow> nat \<Rightarrow> unit outcome \<times> event list"
  and expandSubItems ::
    "string list \<Rightarrow> nav_node list \<Rightarrow> nat \<Rightarrow> nat \<Rightarrow> unit outcome \<times> event list" where
  "expandSubSidebar strategies (NavNode ca cc c se aw (Throws m)) level =
     try_catch (Throws m, []) (\<lambda>m. (Returns (), [WarnSubSidebarError (level + 1)]))"
| "expandSubSidebar strategies (NavNode ca cc c se aw (Returns subItem)) level =
     try_catch (expandSubItems strategies subItem level 0)
       (\<lambda>m. (Returns (), [WarnSubSidebarError (level + 1)]))"
| "subItem_try strategies currentItem level i =
     (if isActive currentItem
      then expandSubSidebar strategies currentItem (level + 1)
      else
        and_then (ensureVisible (elementToClick currentItem)) (\<lambda>isVisible.
          if \<not> isVisible then (Returns (), [WarnSkipNonVisible (level + 1) i])
          else
            and_then (clickWithRetry strategies (elementToClick currentItem) level i) (\<lambda>_.
            and_then (animation_wait currentItem, []) (\<lambda>_.
            expandSubSidebar strategies currentItem (level + 1)))))"
| "expandSubItem strategies currentItem level i =
     try_catch (subItem_try strategies currentItem level i)
       (\<lambda>m. (Returns (), [WarnItemError (level + 1) i]))"
| "expandSubItems strategies [] level i = (Returns (), [])"
| "expandSubItems strategies (currentItem # rest) level i =
     and_then (expandSubItem strategies currentItem level i)
       (\<lambda>_. expandSubItems strategies rest level (Suc i))"

text \<open>
  The loop of \<^verbatim>\<open>expandAllManually\<close> over the top-level items; its body
  \<open>expandTopItem\<close> is a \<^verbatim>\<open>try\<close> block, \<open>topItem_try\<close>, whose handler logs and
  goes on with the next item. The count of the top-level items is read before the
  loop, outside any \<^verbatim>\<open>try\<close> block.
\<close>

definition topItem_try :: "string list \<Rightarrow> nav_node \<Rightarrow> nat \<Rightarrow> unit outcome \<times> event list" where
  "topItem_try strategies currentItem i =
     and_then (Returns (), [DebugTopItem i]) (\<lambda>_.
       if isActive currentItem then expandSubSidebar strategies currentItem 1
       else
         and_then (ensureVisible (elementToClick currentItem)) (\<lambda>isVisible.
         and_then (clickWithRetry strategies (elementToClick currentItem) 0 i) (\<lambda>_.
         and_then (animation_wait currentItem, []) (\<lambda>_.
         expandSubSidebar strategies currentItem 1))))"

definition expandTopItem :: "string list \<Rightarrow> nav_node \<Rightarrow> nat \<Rightarrow> unit outcome \<times> event list" where
  "expandTopItem strategies currentItem i =
     try_catch (topItem_try strategies currentItem i)
       (\<lambda>m. (Returns (), [WarnTopItemError i]))"

fun expandTopItems ::
  "string list \<Rightarrow> nav_node list \<Rightarrow> nat \<Rightarrow> unit outcome \<times> event list" where
  "expandTopItems strategies [] i = (Returns (), [])"
| "expandTopItems strategies (currentItem # rest) i =
     and_then (expandTopItem strategies currentItem i)
       (\<lambda>_. expandTopItems strategies rest (Suc i))"

definition expandAllManually ::
  "string list \<Rightarrow> expander_script \<Rightarrow> unit outcome \<times> event list" where
  "expandAllManually strategies es =
     and_then (top_items es, []) (\<lambda>ulItem. expandTopItems strategies ulItem 0)"

definition expandAll :: "string list \<Rightarrow> expander_script \<Rightarrow> unit outcome \<times> event list" where
  "expandAll strategies es =
     and_then (expandAllWithJavaScript (js1_eval_result es) (js1_wait_result es)) (\<lambda>jsSuccess.
     and_then (expandAllManually strategies es) (\<lambda>_.
     and_then (expandAllWithJavaScript (js2_eval_result es) (js2_wait_result es)) (\<lambda>_.
     and_then (final_wait_result es, []) (\<lambda>_.
     (Returns (), [])))))"

section \<open>LinkCollector: the list of content pages\<close>

text \<open>
  What the browser answers during \<^verbatim>\<open>collectAllLinks\<close>. \<open>alternative_links\<close> and
  \<open>sidebar_links\<close> are the outcomes of the two \<^verbatim>\<open>$$eval\<close> calls: the \<^verbatim>\<open>href\<close> of
  every anchor that matches the link selector, in document order, one entry for each
  anchor.
\<close>

record collector_script =
  base_goto_result :: "unit outcome"
  load_wait_result :: "unit outcome"
  waitForSelector_result :: "unit outcome"
  alternative_links :: "string list outcome"
  level1_count :: "nat outcome"
  expander :: expander_script
  expanded_wait_result :: "unit outcome"
  sidebar_links :: "string list outcome"

definition collectLinksAlternative :: "collector_script \<Rightarrow> error + string list" where
  "collectLinksAlternative cs =
     (case alternative_links cs of
        Throws m \<Rightarrow>
          Inl (LinkCollectionError ''Failed to collect links using alternative method''
                 (Some (LibError m)))
      | Returns allLinks \<Rightarrow> Inr allLinks)"

definition collectAllLinks ::
  "string list \<Rightarrow> collector_script \<Rightarrow> string \<Rightarrow> (error + string list) \<times> event list" where
  "collectAllLinks strategies cs baseUrl =
     (case base_goto_result cs of
        Throws m \<Rightarrow> (Inl (LibError m), [Goto baseUrl])
      | Returns _ \<Rightarrow>
     (case load_wait_result cs of
        Throws m \<Rightarrow> (Inl (LibError m), [Goto baseUrl])
      | Returns _ \<Rightarrow>
     (case waitForSelector_result cs of
        Throws m \<Rightarrow> (collectLinksAlternative cs, [Goto baseUrl])
      | Returns _ \<Rightarrow>
     (case level1_count cs of
        Throws m \<Rightarrow> (Inl (LibError m), [Goto baseUrl])
      | Returns ulCount \<Rightarrow>
     (case expandAll strategies (expander cs) of
        (Throws m, ev) \<Rightarrow> (Inl (LibError m), [Goto baseUrl] @ ev)
      | (Returns _, ev) \<Rightarrow>
     (case expanded_wait_result cs of
        Throws m \<Rightarrow> (Inl (LibError m), [Goto baseUrl] @ ev)
      | Returns _ \<Rightarrow>
     (case sidebar_links cs of
        Throws m \<Rightarrow> (Inl (LibError m), [Goto baseUrl] @ ev)
      | Returns hrefs \<Rightarrow> (Inr hrefs, [Goto baseUrl] @ ev))))))))"

section \<open>DocusaurusPdfExporter: the pipeline\<close>

text \<open>
  The configuration values that the pipeline's control flow reads, and what the
  outside world answers during one run of \<^verbatim>\<open>export\<close> on a freshly constructed
  exporter (as \<^verbatim>\<open>exportToPdf\<close> makes one for every call): the three calls of
  \<^verbatim>\<open>initialize\<close>, the reachability check, the resolved output path, the temporary
  directory, the three components, the removal of the temporary directory and the
  closing of the browser.
\<close>

record 'pg export_script =
  retry_strategies :: "string list"
  cleanTempFiles :: bool
  launch_result :: "unit outcome"
  newContext_result :: "unit outcome"
  newPage_result :: "unit outcome"
  verify_goto_result :: "unit outcome"
  resolved_fullPath :: "string \<Rightarrow> string"
  createTempDirectory_result :: "string outcome"
  collector :: collector_script
  pages_world :: "nat \<Rightarrow> page_script"
  merger :: "'pg merge_env"
  removeDirectory_result :: "unit outcome"
  close_result :: "unit outcome"

text \<open>
  \<^verbatim>\<open>initialize\<close>: the result, whether \<^verbatim>\<open>this.browser\<close> has been assigned, and the
  effects.
\<close>

definition initialize :: "'pg export_script \<Rightarrow> unit outcome \<times> bool \<times> event list" where
  "initialize xs =
     (case launch_result xs of
        Throws m \<Rightarrow> (Throws m, False, [LaunchBrowser])
      | Returns _ \<Rightarrow>
          (case newContext_result xs of
             Throws m \<Rightarrow> (Throws m, True, [LaunchBrowser])
           | Returns _ \<Rightarrow>
               (case newPage_result xs of
                  Throws m \<Rightarrow> (Throws m, True, [LaunchBrowser])
                | Returns _ \<Rightarrow> (Returns (), True, [LaunchBrowser]))))"

definition verifyDocusaurusRunning ::
  "'pg export_script \<Rightarrow> string \<Rightarrow> (error + unit) \<times> event list" where
  "verifyDocusaurusRunning xs u =
     (case verify_goto_result xs of
        Throws m \<Rightarrow>
          (Inl (ExportError (''Failed to connect to Docusaurus at '' @ u @
                               ''. Make sure the server is running.'')
                  (Some (LibError m))),
           [Goto u])
      | Returns _ \<Rightarrow> (Inr (), [Goto u]))"

text \<open>
  The \<^verbatim>\<open>try\<close> block of \<^verbatim>\<open>export\<close>, after \<^verbatim>\<open>initialize\<close> has succeeded. The
  \<^verbatim>\<open>catch\<close> block logs and throws the same error again, so an error of the block is
  the error of \<^verbatim>\<open>export\<close>.
\<close>

definition export_steps ::
  "'pg export_script \<Rightarrow> string \<Rightarrow> string \<Rightarrow> (error + string) \<times> event list" where
  "export_steps xs u outputPath =
     (case verifyDocusaurusRunning xs u of
        (Inl err, ev1) \<Rightarrow> (Inl err, ev1)
      | (Inr _, ev1) \<Rightarrow>
     (let fullPath = resolved_fullPath xs outputPath
      in
     (case createTempDirectory_result xs of
        Throws m \<Rightarrow> (Inl (LibError m), ev1)
      | Returns tempDir \<Rightarrow>
     (case collectAllLinks (retry_strategies xs) (collector xs) u of
        (Inl err, ev2) \<Rightarrow> (Inl err, ev1 @ [CreateTempDir tempDir] @ ev2)
      | (Inr links, ev2) \<Rightarrow>
     (case exportPages (pages_world xs) links tempDir None of
        (exportedFiles, ev3) \<Rightarrow>
          if length exportedFiles = 0
          then (Inl (ExportError ''No pages were successfully exported'' None),
                ev1 @ [CreateTempDir tempDir] @ ev2 @ ev3)
          else
     (case merge (merger xs) (Some exportedFiles) fullPath of
        (Inl err, md, ev4) \<Rightarrow> (Inl err, ev1 @ [CreateTempDir tempDir] @ ev2 @ ev3 @ ev4)
      | (Inr written, md, ev4) \<Rightarrow>
          if cleanTempFiles xs
          then (case removeDirectory_result xs of
                  Throws m \<Rightarrow>
                    (Inl (LibError m),
                     ev1 @ [CreateTempDir tempDir] @ ev2 @ ev3 @ ev4 @ [RemoveDir tempDir])
                | Returns _ \<Rightarrow>
                    (Inr fullPath,
                     ev1 @ [CreateTempDir tempDir] @ ev2 @ ev3 @ ev4 @ [RemoveDir tempDir]))
          else (Inr fullPath, ev1 @ [CreateTempDir tempDir] @ ev2 @ ev3 @ ev4)))))))"

definition export_try ::
  "'pg export_script \<Rightarrow> string \<Rightarrow> string \<Rightarrow> (error + string) \<times> bool \<times> event list" where
  "export_try xs u outputPath =
     (case initialize xs of
        (Throws m, browser, ev0) \<Rightarrow> (Inl (LibError m), browser, ev0)
      | (Returns _, browser, ev0) \<Rightarrow>
          (case export_steps xs u outputPath of
             (r, ev) \<Rightarrow> (r, browser, ev0 @ ev)))"

text \<open>
  \<^verbatim>\<open>export\<close>: the \<^verbatim>\<open>try\<close> block, then the \<^verbatim>\<open>finally\<close> block, which closes the
  browser when \<^verbatim>\<open>this.browser\<close> is set. An error thrown by \<^verbatim>\<open>close\<close> replaces the
  result.
\<close>

definition export ::
  "'pg export_script \<Rightarrow> string \<Rightarrow> string \<Rightarrow> (error + string) \<times> event list" where
  "export xs u outputPath =
     (case export_try xs u outputPath of
        (r, browser, ev) \<Rightarrow>
          if browser
          then (case close_result xs of
                  Throws m \<Rightarrow> (Inl (LibError m), ev @ [CloseBrowser])
                | Returns _ \<Rightarrow> (r, ev @ [CloseBrowser]))
          else (r, ev))"

section \<open>PdfMerger: the bookmark hierarchy\<close>

text \<open>
  A bookmark dictionary. A destination is the index of the target page. The entries
  \<open>Parent\<close>, \<open>Prev\<close>, \<open>Next\<close>, \<open>First\<close> and \<open>Last\<close> are to hold references to
  other bookmarks; reading an entry with \<^verbatim>\<open>get\<close> gives \<open>None\<close> when the entry has
  not been set or has been set to \<^verbatim>\<open>undefined\<close>.
\<close>

record dict =
  Title :: string
  Dest :: nat
  Parent :: "nat option"
  Prev :: "nat option"
  Next :: "nat option"
  First :: "nat option"
  Last :: "nat option"
  Count :: "nat option"

record bookmarkInfo =
  dict :: dict
  level :: int
  parentIndex :: int
  index :: nat

text \<open>
  The array \<^verbatim>\<open>stack\<close>: slot \<open>k\<close> holds the index of a bookmark or
  \<^verbatim>\<open>undefined\<close>. Reading beyond the end gives \<^verbatim>\<open>undefined\<close>; writing beyond the
  end extends the array, leaving holes; writing at a negative position does not touch
  the array's elements.
\<close>

definition stack_get :: "nat option list \<Rightarrow> int \<Rightarrow> nat option" where
  "stack_get stack k =
     (if 0 \<le> k \<and> nat k < length stack then stack ! nat k else None)"

definition stack_set :: "nat option list \<Rightarrow> int \<Rightarrow> nat \<Rightarrow> nat option list" where
  "stack_set stack k v =
     (if k < 0 then stack
      else if nat k < length stack then stack[nat k := Some v]
      else stack @ replicate (nat k - length stack) None @ [Some v])"

text \<open>\<^verbatim>\<open>for (let i = level; i < stack.length; i++) stack[i] = undefined\<close>\<close>

definition stack_clear :: "nat option list \<Rightarrow> int \<Rightarrow> nat option list" where
  "stack_clear stack lv =
     map (\<lambda>(i, x). if lv \<le> int i then None else x) (enumerate 0 stack)"

text \<open>The body of the inner loop of the first pass, for one heading of a page.\<close>

definition addBookmark ::
  "nat \<Rightarrow> heading \<Rightarrow> bookmarkInfo list \<times> nat option list
     \<Rightarrow> bookmarkInfo list \<times> nat option list" where
  "addBookmark targetPage h st =
     (case st of (bookmarkInfos, stack) \<Rightarrow>
        let lv = hlevel h;
            bookmarkDict = \<lparr>Title = htext h, Dest = targetPage, Parent = None, Prev = None,
                            Next = None, First = None, Last = None, Count = None\<rparr>;
            parentIdx =
              (if lv > 1
               then (let parentLevel = lv - 2
                     in if parentLevel \<ge> 0 \<and> stack_get stack parentLevel \<noteq> None
                        then int (the (stack_get stack parentLevel))
                        else - 1)
               else - 1);
            bookmarkInfos' = bookmarkInfos @
              [\<lparr>dict = bookmarkDict, level = lv, parentIndex = parentIdx,
                index = length bookmarkInfos\<rparr>];
            stack' = stack_set stack (lv - 1) (length bookmarkInfos' - 1)
        in (bookmarkInfos', stack_clear stack' lv))"

definition firstPass_page ::
  "nat \<Rightarrow> exported_page \<Rightarrow> bookmarkInfo list \<times> nat option list
     \<Rightarrow> bookmarkInfo list \<times> nat option list" where
  "firstPass_page numPages meta st =
     (if pageIndex meta \<ge> numPages then st
      else fold (addBookmark (pageIndex meta)) (headings meta) st)"

definition firstPass ::
  "nat \<Rightarrow> exported_page list \<Rightarrow> bookmarkInfo list \<times> nat option list" where
  "firstPass numPages metadata = fold (firstPass_page numPages) metadata ([], [])"

text \<open>
  The search of the second pass for the previous bookmark with the same level and the
  same parent: \<open>findPrev infos i (j + 1)\<close> looks at \<open>j\<close>, \<open>j - 1\<close>, \<open>\<dots>\<close>, \<open>0\<close>.
\<close>

fun findPrev :: "bookmarkInfo list \<Rightarrow> nat \<Rightarrow> nat \<Rightarrow> nat option" where
  "findPrev infos i 0 = None"
| "findPrev infos i (Suc j) =
     (if level (infos ! j) = level (infos ! i) \<and>
         parentIndex (infos ! j) = parentIndex (infos ! i)
      then Some j
      else findPrev infos i j)"

text \<open>
  \<^verbatim>\<open>dict.ref\<close>. A \<^verbatim>\<open>PDFDict\<close> of pdf-lib has no property \<^verbatim>\<open>ref\<close>: the
  reference of a dictionary is what \<^verbatim>\<open>context.register\<close> returns, and the first
  pass does not keep it. So the expression is \<^verbatim>\<open>undefined\<close> for every dictionary.
\<close>

definition ref :: "dict \<Rightarrow> nat option" where
  "ref d = None"

definition setDict :: "bookmarkInfo list \<Rightarrow> nat \<Rightarrow> (dict \<Rightarrow> dict) \<Rightarrow> bookmarkInfo list" where
  "setDict infos k f = infos[k := (infos ! k)\<lparr>dict := f (dict (infos ! k))\<rparr>]"

definition linkParent :: "bookmarkInfo list \<Rightarrow> nat \<Rightarrow> bookmarkInfo list" where
  "linkParent infos i =
     (let info = infos ! i
      in if parentIndex info \<ge> 0
         then
           let p = nat (parentIndex info);
               infos1 = setDict infos i (\<lambda>d. d\<lparr>Parent := ref (dict (infos ! p))\<rparr>);
               infos2 = (if First (dict (infos1 ! p)) = None
                         then setDict infos1 p (\<lambda>d. d\<lparr>First := ref (dict (infos1 ! i))\<rparr>)
                         else infos1);
               infos3 = setDict infos2 p (\<lambda>d. d\<lparr>Last := ref (dict (infos2 ! i))\<rparr>);
               currentCount = (case Count (dict (infos3 ! p)) of None \<Rightarrow> 0 | Some c \<Rightarrow> c)
           in setDict infos3 p (\<lambda>d. d\<lparr>Count := Some (currentCount + 1)\<rparr>)
         else infos)"

definition linkSibling :: "bookmarkInfo list \<Rightarrow> nat \<Rightarrow> bookmarkInfo list" where
  "linkSibling infos i =
     (case findPrev infos i i of
        None \<Rightarrow> infos
      | Some j \<Rightarrow>
          setDict (setDict infos i (\<lambda>d. d\<lparr>Prev := ref (dict (infos ! j))\<rparr>)) j
            (\<lambda>d. d\<lparr>Next := ref (dict (infos ! i))\<rparr>))"

definition linkBookmark :: "nat \<Rightarrow> bookmarkInfo list \<Rightarrow> bookmarkInfo list" where
  "linkBookmark i infos = linkSibling (linkParent infos i) i"

definition secondPass :: "bookmarkInfo list \<Rightarrow> bookmarkInfo list" where
  "secondPass infos = fold linkBookmark [0..<length infos] infos"

text \<open>
  \<^verbatim>\<open>buildBookmarkHierarchy\<close> returns the dictionaries of the root bookmarks; the
  model returns \<^verbatim>\<open>bookmarkInfos\<close> as well, with the dictionaries of all
  bookmarks. Of \<^verbatim>\<open>pages\<close> only the length is read.
\<close>

definition buildBookmarkHierarchy ::
  "nat \<Rightarrow> exported_page list \<Rightarrow> dict list \<times> bookmarkInfo list" where
  "buildBookmarkHierarchy numPages metadata =
     (let bookmarkInfos = secondPass (fst (firstPass numPages metadata))
      in (map dict (filter (\<lambda>info. level info = 1 \<or> parentIndex info = - 1) bookmarkInfos),
          bookmarkInfos))"

text \<open>
  Walking a sibling chain: from a first entry along the \<open>Next\<close> entries, a
  reference \<open>k\<close> standing for the \<open>k\<close>-th bookmark. The walk stops at an entry that
  is not set; \<open>None\<close> when the fuel runs out or a reference points outside
  \<^verbatim>\<open>bookmarkInfos\<close>.
\<close>

fun chain :: "nat \<Rightarrow> bookmarkInfo list \<Rightarrow> nat option \<Rightarrow> nat list option" where
  "chain fuel infos None = Some []"
| "chain 0 infos (Some k) = None"
| "chain (Suc fuel) infos (Some k) =
     (if k < length infos
      then map_option (Cons k) (chain fuel infos (Next (dict (infos ! k))))
      else None)"

text \<open>
  The node that is open at level \<open>m\<close> after the headings with levels \<open>ls\<close>: the last
  heading whose level is at most \<open>m\<close>, when its level is \<open>m\<close>. (A later heading of a
  smaller level closes it.) \<open>open_upto ls m n\<close> looks at the first \<open>n\<close> headings.
\<close>

fun open_upto :: "int list \<Rightarrow> int \<Rightarrow> nat \<Rightarrow> nat option" where
  "open_upto ls m 0 = None"
| "open_upto ls m (Suc j) =
     (if ls ! j \<le> m then (if ls ! j = m then Some j else None)
      else open_upto ls m j)"

section \<open>Observations used in the statements\<close>

definition is_Goto :: "event \<Rightarrow> bool" where
  "is_Goto e = (case e of Goto v \<Rightarrow> True | _ \<Rightarrow> False)"

definition is_PrintPdf :: "event \<Rightarrow> bool" where
  "is_PrintPdf e = (case e of PrintPdf p h ls \<Rightarrow> True | _ \<Rightarrow> False)"

definition is_ReplaceInternalLinks :: "event \<Rightarrow> bool" where
  "is_ReplaceInternalLinks e = (case e of ReplaceInternalLinks b \<Rightarrow> True | _ \<Rightarrow> False)"

definition is_merge_effect :: "event \<Rightarrow> bool" where
  "is_merge_effect e = (case e of ReadFile p \<Rightarrow> True | WriteFile p \<Rightarrow> True | _ \<Rightarrow> False)"

text \<open>
  Whether iteration \<open>i\<close> of \<^verbatim>\<open>exportPages\<close>, for the URL \<open>u\<close>, ends with a
  result: \<^verbatim>\<open>exportPage\<close> neither returns \<^verbatim>\<open>null\<close> nor throws.
\<close>

definition page_ok ::
  "(nat \<Rightarrow> page_script) \<Rightarrow> string \<Rightarrow> string option \<Rightarrow> nat \<times> string \<Rightarrow> bool" where
  "page_ok w outputDir baseUrl iu =
     (case fst (exportPage (w (fst iu)) (snd iu)
                  (path_join outputDir (string_of_nat (fst iu) @ ''.pdf'')) baseUrl) of
        Inr (Some result) \<Rightarrow> True
      | Inr None \<Rightarrow> False
      | Inl err \<Rightarrow> False)"

definition page_events ::
  "(nat \<Rightarrow> page_script) \<Rightarrow> string \<Rightarrow> string option \<Rightarrow> nat \<times> string \<Rightarrow> event list" where
  "page_events w outputDir baseUrl iu =
     snd (exportPage (w (fst iu)) (snd iu)
            (path_join outputDir (string_of_nat (fst iu) @ ''.pdf'')) baseUrl)"

text \<open>The events that the sidebar expander leaves.\<close>

definition is_sidebar_event :: "event \<Rightarrow> bool" where
  "is_sidebar_event e =
     (case e of
        EvalExpandAll \<Rightarrow> True
      | ScrollIntoView \<Rightarrow> True
      | Click s \<Rightarrow> True
      | DebugTopItem i \<Rightarrow> True
      | WarnJsExpandFailed \<Rightarrow> True
      | WarnAllClicksFailed l i \<Rightarrow> True
      | WarnSkipNonVisible l i \<Rightarrow> True
      | WarnItemError l i \<Rightarrow> True
      | WarnSubSidebarError l \<Rightarrow> True
      | WarnTopItemError i \<Rightarrow> True
      | _ \<Rightarrow> False)"


text \<open>
  An event that shows no link rewriting: it is not a call of
  \<^verbatim>\<open>replaceInternalLinks\<close>, and a printed page still has the \<^verbatim>\<open>href\<close> of every
  anchor.
\<close>

definition links_untouched :: "event \<Rightarrow> bool" where
  "links_untouched e =
     (case e of
        ReplaceInternalLinks b \<Rightarrow> False
      | PrintPdf p h ls \<Rightarrow> list_all (\<lambda>l. l \<noteq> None) ls
      | _ \<Rightarrow> True)"

text \<open>What \<^verbatim>\<open>merge\<close> does with the artifact of iteration \<open>i\<close>.\<close>

definition copied_pages :: "'pg merge_env \<Rightarrow> nat \<times> exported_page \<Rightarrow> 'pg list" where
  "copied_pages env im =
     (case load_pages env (fst im) (path (snd im)) of Returns ps \<Rightarrow> ps | Throws m \<Rightarrow> [])"

definition loads :: "'pg merge_env \<Rightarrow> nat \<times> exported_page \<Rightarrow> bool" where
  "loads env im =
     (case load_pages env (fst im) (path (snd im)) of
        Returns ps \<Rightarrow> True
      | Throws m \<Rightarrow> False)"

definition page_count :: "'pg merge_env \<Rightarrow> nat \<times> exported_page \<Rightarrow> nat" where
  "page_count env im = length (copied_pages env im)"

definition merged_pages :: "'pg merge_env \<Rightarrow> exported_page list \<Rightarrow> 'pg list" where
  "merged_pages env md = concat (map (copied_pages env) (zip [0..<length md] md))"

text \<open>The pages of the artifacts before the \<open>k\<close>-th: \<open>p\<^sub>1 + \<dots> + p\<^sub>k\<close>.\<close>

definition offset_before :: "'pg merge_env \<Rightarrow> exported_page list \<Rightarrow> nat \<Rightarrow> nat" where
  "offset_before env md k =
     sum_list (map (page_count env) (take k (zip [0..<length md] md)))"

text \<open>The three calls that write the output all return.\<close>

definition writes_ok :: "'pg merge_env \<Rightarrow> exported_page list \<Rightarrow> string \<Rightarrow> bool" where
  "writes_ok env md outputPath =
     (ensureDir_result env outputPath = Returns () \<and>
      save_result env (merged_pages env md) = Returns () \<and>
      writeFile_result env outputPath = Returns ())"

text \<open>The two fatal conditions of \<^verbatim>\<open>merge\<close>: nothing to merge, or the output
  cannot be written.\<close>

definition merge_fatal :: "'pg merge_env \<Rightarrow> exported_page list option \<Rightarrow> string \<Rightarrow> bool" where
  "merge_fatal env metadata outputPath =
     (case metadata of
        None \<Rightarrow> True
      | Some md \<Rightarrow> md = [] \<or> \<not> writes_ok env md outputPath)"

text \<open>
  A run of the pipeline that gets as far as the batch export and exports no page:
  the browser starts, the site answers, the temporary directory is created, the
  links are collected, and \<^verbatim>\<open>exportPages\<close> returns the empty list.
\<close>

definition exports_nothing :: "'pg export_script \<Rightarrow> string \<Rightarrow> bool" where
  "exports_nothing xs u =
     (fst (initialize xs) = Returns () \<and>
      fst (verifyDocusaurusRunning xs u) = Inr () \<and>
      (case createTempDirectory_result xs of
         Throws m \<Rightarrow> False
       | Returns tempDir \<Rightarrow>
           (case fst (collectAllLinks (retry_strategies xs) (collector xs) u) of
              Inl err \<Rightarrow> False
            | Inr links \<Rightarrow> fst (exportPages (pages_world xs) links tempDir None) = [])))"

text \<open>The events that the processing of one sidebar item below the top level leaves.\<close>

definition is_item_event :: "event \<Rightarrow> bool" where
  "is_item_event e =
     (case e of
        ScrollIntoView \<Rightarrow> True
      | Click s \<Rightarrow> True
      | WarnAllClicksFailed l i \<Rightarrow> True
      | WarnSkipNonVisible l i \<Rightarrow> True
      | WarnItemError l i \<Rightarrow> True
      | WarnSubSidebarError l \<Rightarrow> True
      | _ \<Rightarrow> False)"

definition is_CloseBrowser :: "event \<Rightarrow> bool" where
  "is_CloseBrowser e = (case e of CloseBrowser \<Rightarrow> True | _ \<Rightarrow> False)"

text \<open>The anchors' addresses that \<^verbatim>\<open>collectAllLinks\<close> reads: those of the
  sidebar, or those of the whole document when the sidebar does not show up.\<close>

definition matched_hrefs :: "collector_script \<Rightarrow> string list outcome" where
  "matched_hrefs cs =
     (case waitForSelector_result cs of
        Throws m \<Rightarrow> alternative_links cs
      | Returns _ \<Rightarrow> sidebar_links cs)"

text \<open>The events of a page exported without a base URL.\<close>

definition is_page_event :: "event \<Rightarrow> bool" where
  "is_page_event e =
     (case e of
        Goto v \<Rightarrow> True
      | AddStyleTag \<Rightarrow> True
      | PrintPdf p h ls \<Rightarrow> list_all (\<lambda>l. l \<noteq> None) ls
      | _ \<Rightarrow> False)"

text \<open>The events of the \<^verbatim>\<open>try\<close> block of \<^verbatim>\<open>export\<close>.\<close>

definition is_try_event :: "event \<Rightarrow> bool" where
  "is_try_event e =
     (is_page_event e \<or> is_sidebar_event e \<or> is_merge_effect e \<or>
      (case e of
         LaunchBrowser \<Rightarrow> True
       | CreateTempDir d \<Rightarrow> True
       | RemoveDir d \<Rightarrow> True
       | _ \<Rightarrow> False))"

text \<open>
  The flat sequence of headings that the first pass works through: the headings of
  every page whose page index is in range, each with that page index, in order.
\<close>

definition flat_headings :: "nat \<Rightarrow> exported_page list \<Rightarrow> (nat \<times> heading) list" where
  "flat_headings numPages metadata =
     concat (map (\<lambda>meta. if pageIndex meta \<ge> numPages then []
                          else map (Pair (pageIndex meta)) (headings meta)) metadata)"

definition addFlat ::
  "nat \<times> heading \<Rightarrow> bookmarkInfo list \<times> nat option list
     \<Rightarrow> bookmarkInfo list \<times> nat option list" where
  "addFlat ph st = addBookmark (fst ph) (snd ph) st"

text \<open>
  The parent that the words of the specification give the \<open>k\<close>-th heading of a
  sequence with levels \<open>ls\<close>: for a level \<open>L > 1\<close> the node open at level \<open>L - 1\<close>
  when the heading is reached, if there is one; otherwise none (\<open>- 1\<close>).
\<close>

definition expected_parent :: "int list \<Rightarrow> nat \<Rightarrow> int" where
  "expected_parent ls k =
     (if ls ! k > 1
      then (case open_upto ls (ls ! k - 1) k of Some p \<Rightarrow> int p | None \<Rightarrow> - 1)
      else - 1)"

text \<open>The bookmarks whose \<^verbatim>\<open>parentIndex\<close> is \<open>q\<close>, in order.\<close>

definition children_of :: "bookmarkInfo list \<Rightarrow> int \<Rightarrow> nat list" where
  "children_of infos q = filter (\<lambda>c. parentIndex (infos ! c) = q) [0..<length infos]"

text \<open>The recorded number of children, read as the code reads it:
  \<^verbatim>\<open>Count?.asNumber() || 0\<close>.\<close>

definition countOf :: "dict \<Rightarrow> nat" where
  "countOf d = (case Count d of None \<Rightarrow> 0 | Some c \<Rightarrow> c)"

text \<open>
  The level sequences of the claim: the first level is at least 1, and every later
  level is either at most one deeper than the level before it or a return to a level
  not above the first one's.
\<close>

fun steps_from :: "int \<Rightarrow> int list \<Rightarrow> bool" where
  "steps_from a0 (a # b # ls) = (a0 \<le> b \<and> b \<le> a + 1 \<and> steps_from a0 (b # ls))"
| "steps_from a0 ls = True"

definition well_nested :: "int list \<Rightarrow> bool" where
  "well_nested ls = (case ls of [] \<Rightarrow> True | a # rest \<Rightarrow> 1 \<le> a \<and> steps_from a ls)"

text \<open>The levels of a flat sequence of headings.\<close>

definition levels_of :: "(nat \<times> heading) list \<Rightarrow> int list" where
  "levels_of hs = map (\<lambda>ph. hlevel (snd ph)) hs"

text \<open>
  The bookmark that the first pass is to make of the \<open>k\<close>-th heading of a flat
  sequence: title, target page and level of the heading, the parent of the
  specification, no link set yet.
\<close>

definition fresh_bookmark :: "(nat \<times> heading) list \<Rightarrow> nat \<Rightarrow> bookmarkInfo" where
  "fresh_bookmark hs k =
     \<lparr>dict = \<lparr>Title = htext (snd (hs ! k)), Dest = fst (hs ! k), Parent = None,
              Prev = None, Next = None, First = None, Last = None, Count = None\<rparr>,
      level = hlevel (snd (hs ! k)),
      parentIndex = expected_parent (levels_of hs) k,
      index = k\<rparr>"
text \<open>The second pass leaves the length of \<^verbatim>\<open>bookmarkInfos\<close> and the level and
  \<^verbatim>\<open>parentIndex\<close> of every entry as they are.\<close>

definition same_shape :: "bookmarkInfo list \<Rightarrow> bookmarkInfo list \<Rightarrow> bool" where
  "same_shape I S \<longleftrightarrow>
     length S = length I \<and>
     (\<forall>k<length I. level (S ! k) = level (I ! k) \<and> parentIndex (S ! k) = parentIndex (I ! k))"

text \<open>No dictionary has an entry that refers to another bookmark.\<close>

definition unlinked :: "bookmarkInfo list \<Rightarrow> bool" where
  "unlinked S \<longleftrightarrow>
     (\<forall>k<length S. Parent (dict (S ! k)) = None \<and> Prev (dict (S ! k)) = None \<and>
        Next (dict (S ! k)) = None \<and> First (dict (S ! k)) = None \<and>
        Last (dict (S ! k)) = None)"

text \<open>
  The state of the dictionaries when the second pass has worked through the bookmarks
  \<open>0\<close>, \<open>\<dots>\<close>, \<open>t - 1\<close> of the list \<open>I\<close> it started from: the children met so far
  have been counted, and no reference has been stored.
\<close>

definition counted_upto :: "bookmarkInfo list \<Rightarrow> nat \<Rightarrow> bookmarkInfo list \<Rightarrow> bool" where
  "counted_upto I t S \<longleftrightarrow>
     same_shape I S \<and> unlinked S \<and>
     (\<forall>k<length I.
        countOf (dict (S ! k)) =
          length (filter (\<lambda>c. parentIndex (I ! c) = int k) [0..<t]))"

section \<open>Concrete inputs\<close>

definition content_page :: page_script where
  "content_page =
     \<lparr>goto_result = Returns (), addStyleTag_result = Returns (), styleWait_result = Returns (),
      page_hrefs = [''/docs/intro'', ''https://example.org/''],
      replaceLinks_result = Returns (),
      docCardListItem_count = Returns 0, pageContent_count = Returns 0,
      headings_eval = Returns [\<lparr>hlevel = 1, htext = ''A'', hid = ''a''\<rparr>],
      skipToContent_height = Returns (Some 1200), pdf_result = Returns ()\<rparr>"

definition listing_page :: page_script where
  "listing_page =
     content_page\<lparr>docCardListItem_count := Returns 3, pageContent_count := Returns 3\<rparr>"

definition unreachable_page :: page_script where
  "unreachable_page = content_page\<lparr>goto_result := Throws ''net::ERR_CONNECTION_REFUSED''\<rparr>"

definition page_without_region :: page_script where
  "page_without_region = content_page\<lparr>skipToContent_height := Returns None\<rparr>"

text \<open>A site of three pages: a content page, a listing page and a content page.\<close>

definition three_pages :: "nat \<Rightarrow> page_script" where
  "three_pages i = (if i = 1 then listing_page else content_page)"

text \<open>The retry strategies of the default configuration.\<close>

definition default_strategies :: "string list" where
  "default_strategies = [''click'', ''forceClick'', ''javascriptClick'']"

definition visible_element :: element_script where
  "visible_element =
     \<lparr>visible_before = Returns True, scroll_result = Returns (),
      visibleWait_result = Returns (), visible_after = Returns True,
      click_result = Returns (), forceClick_result = Returns (),
      javascriptClick_result = Returns ()\<rparr>"

text \<open>An element on which every click strategy fails.\<close>

definition stuck_element :: element_script where
  "stuck_element =
     visible_element\<lparr>click_result := Throws ''Timeout 2000ms exceeded'',
                      forceClick_result := Throws ''Timeout 2000ms exceeded'',
                      javascriptClick_result := Throws ''Element is not attached''\<rparr>"

definition leaf_item :: nav_node where
  "leaf_item =
     NavNode (Returns (Some ''menu__list-item-collapsible'')) (Returns 1)
       visible_element visible_element (Returns ()) (Returns [])"

definition stuck_item :: nav_node where
  "stuck_item =
     NavNode (Returns (Some ''menu__list-item-collapsible'')) (Returns 1)
       stuck_element stuck_element (Returns ()) (Returns [])"

text \<open>An element that is not visible, before and after scrolling, and an item whose
  control is such an element.\<close>

definition hidden_element :: element_script where
  "hidden_element =
     visible_element\<lparr>visible_before := Returns False, visible_after := Returns False\<rparr>"

definition hidden_item :: nav_node where
  "hidden_item =
     NavNode (Returns (Some ''menu__list-item-collapsible'')) (Returns 1)
       hidden_element hidden_element (Returns ()) (Returns [])"

text \<open>A sidebar of two top-level items, the first of which cannot be clicked.\<close>

definition sidebar_with_stuck_item :: expander_script where
  "sidebar_with_stuck_item =
     \<lparr>js1_eval_result = Returns (), js1_wait_result = Returns (),
      top_items = Returns [stuck_item, leaf_item],
      js2_eval_result = Returns (), js2_wait_result = Returns (),
      final_wait_result = Returns ()\<rparr>"


text \<open>
  Three artifacts for \<^verbatim>\<open>merge\<close>: the first has three pages, the second cannot be
  read, the third has one page. Pages are numbers here.
\<close>

definition demo_merge_env :: "nat merge_env" where
  "demo_merge_env =
     \<lparr>load_pages = (\<lambda>i p. if p = ''tmp/0.pdf'' then Returns [10, 11, 12]
                          else if p = ''tmp/2.pdf'' then Returns [30]
                          else Throws ''ENOENT: no such file or directory''),
      ensureDir_result = (\<lambda>p. Returns ()),
      save_result = (\<lambda>ps. Returns ()),
      writeFile_result = (\<lambda>p. Returns ())\<rparr>"

definition demo_metadata :: "exported_page list" where
  "demo_metadata =
     [\<lparr>path = ''tmp/0.pdf'', headings = [], url = ''http://localhost:3000/docs/a'',
       pageIndex = 0\<rparr>,
      \<lparr>path = ''tmp/1.pdf'', headings = [], url = ''http://localhost:3000/docs/b'',
       pageIndex = 1\<rparr>,
      \<lparr>path = ''tmp/2.pdf'', headings = [], url = ''http://localhost:3000/docs/c'',
       pageIndex = 2\<rparr>]"

text \<open>
  One artifact that loads and has no page (a document saved without a page), and two
  artifacts neither of which can be read.
\<close>

definition no_page_env :: "nat merge_env" where
  "no_page_env = demo_merge_env\<lparr>load_pages := (\<lambda>i p. Returns [])\<rparr>"

definition no_page_metadata :: "exported_page list" where
  "no_page_metadata =
     [\<lparr>path = ''tmp/0.pdf'', headings = [], url = ''http://localhost:3000/docs/a'',
       pageIndex = 0\<rparr>]"

definition unreadable_metadata :: "exported_page list" where
  "unreadable_metadata =
     [\<lparr>path = ''tmp/5.pdf'', headings = [], url = ''http://localhost:3000/docs/a'',
       pageIndex = 0\<rparr>,
      \<lparr>path = ''tmp/6.pdf'', headings = [], url = ''http://localhost:3000/docs/b'',
       pageIndex = 1\<rparr>]"

text \<open>A sidebar in which two anchors lead to the same page, and a site without the
  expected sidebar whose anchors do the same.\<close>

definition sidebar_with_repeated_link :: collector_script where
  "sidebar_with_repeated_link =
     \<lparr>base_goto_result = Returns (), load_wait_result = Returns (),
      waitForSelector_result = Returns (),
      alternative_links = Returns [],
      level1_count = Returns 2,
      expander = sidebar_with_stuck_item,
      expanded_wait_result = Returns (),
      sidebar_links = Returns [''http://localhost:3000/docs/intro'',
                               ''http://localhost:3000/docs/guide'',
                               ''http://localhost:3000/docs/intro'']\<rparr>"

definition flat_site_with_repeated_link :: collector_script where
  "flat_site_with_repeated_link =
     sidebar_with_repeated_link
       \<lparr>waitForSelector_result := Throws ''Timeout 10000ms exceeded'',
        alternative_links := Returns [''http://localhost:3000/docs/intro'',
                                      ''http://localhost:3000/docs/intro'']\<rparr>"

text \<open>A run of the pipeline in which every page is a listing page.\<close>

definition listing_only_run :: "nat export_script" where
  "listing_only_run =
     \<lparr>retry_strategies = default_strategies, cleanTempFiles = True,
      launch_result = Returns (), newContext_result = Returns (),
      newPage_result = Returns (), verify_goto_result = Returns (),
      resolved_fullPath = (\<lambda>p. ''/work/'' @ p),
      createTempDirectory_result = Returns ''/work/pdfsTempab12cd'',
      collector = sidebar_with_repeated_link,
      pages_world = (\<lambda>i. listing_page),
      merger = demo_merge_env,
      removeDirectory_result = Returns (), close_result = Returns ()\<rparr>"

text \<open>A run in which the site does not answer.\<close>

definition unreachable_run :: "nat export_script" where
  "unreachable_run =
     listing_only_run\<lparr>verify_goto_result := Throws ''net::ERR_CONNECTION_REFUSED''\<rparr>"

text \<open>
  A run that succeeds: three links are collected, the second page is a listing
  page, and every artifact that is read has one page.
\<close>

definition demo_run :: "nat export_script" where
  "demo_run =
     listing_only_run
       \<lparr>pages_world := three_pages,
        merger := \<lparr>load_pages = (\<lambda>i p. Returns [i]),
                   ensureDir_result = (\<lambda>p. Returns ()),
                   save_result = (\<lambda>ps. Returns ()),
                   writeFile_result = (\<lambda>p. Returns ())\<rparr>\<rparr>"

text \<open>
  Two merged pages with their headings: the levels 1, 2, 2, 3 on the first page and
  1, 2 on the second.
\<close>

definition demo_outline :: "exported_page list" where
  "demo_outline =
     [\<lparr>path = ''tmp/0.pdf'',
       headings = [\<lparr>hlevel = 1, htext = ''A'', hid = ''a''\<rparr>,
                   \<lparr>hlevel = 2, htext = ''A1'', hid = ''a1''\<rparr>,
                   \<lparr>hlevel = 2, htext = ''A2'', hid = ''a2''\<rparr>,
                   \<lparr>hlevel = 3, htext = ''A2a'', hid = ''''\<rparr>],
       url = ''http://localhost:3000/docs/a'', pageIndex = 0\<rparr>,
      \<lparr>path = ''tmp/1.pdf'',
       headings = [\<lparr>hlevel = 1, htext = ''B'', hid = ''b''\<rparr>,
                   \<lparr>hlevel = 2, htext = ''B1'', hid = ''b1''\<rparr>],
       url = ''http://localhost:3000/docs/b'', pageIndex = 1\<rparr>]"

section \<open>Properties of the page renderer\<close>

lemma applyCustomStyles_events: "applyCustomStyles ps = [AddStyleTag]"
  by (simp add: applyCustomStyles_def split: outcome.splits)

text \<open>
  Claim C7, as amended. \<^verbatim>\<open>calculatePageHeight\<close> returns the measured
  \<^verbatim>\<open>offsetHeight\<close> plus 60 when the content region is found, 1000 when the
  measurement throws, and 0 when no element matches the selector; the returned height
  is positive exactly when the region is found or the measurement throws.
\<close>

theorem calculatePageHeight_result:
  "calculatePageHeight ps =
     (case skipToContent_height ps of
        Throws m \<Rightarrow> 1000
      | Returns None \<Rightarrow> 0
      | Returns (Some offsetHeight) \<Rightarrow> offsetHeight + 60)
   \<and> (0 < calculatePageHeight ps \<longleftrightarrow> skipToContent_height ps \<noteq> Returns None)"
  by (simp add: calculatePageHeight_def split: outcome.splits option.splits)

text \<open>
  Claim C7 as stated fails: on a page where no element matches the selector of the
  content region the measurement does not fail, and the height returned is 0, which is
  neither positive nor the default.
\<close>

theorem calculatePageHeight_zero_counterexample:
  "skipToContent_height page_without_region = Returns None
   \<and> calculatePageHeight page_without_region = 0
   \<and> \<not> 0 < calculatePageHeight page_without_region"
  by (simp add: page_without_region_def calculatePageHeight_def)

lemma exportPage_skip_iff:
  "fst (exportPage ps u out b) = Inr None \<longleftrightarrow>
     (\<exists>x. goto_result ps = Returns x) \<and> isDocListPage ps"
  unfolding exportPage_def Let_def
  by (cases "goto_result ps"; cases "pdf_result ps"; cases b;
      auto split: prod.splits if_splits)

lemma exportPage_skip_no_pdf:
  "fst (exportPage ps u out b) = Inr None \<Longrightarrow>
     filter is_PrintPdf (snd (exportPage ps u out b)) = []"
  unfolding exportPage_def Let_def applyCustomStyles_events replaceInternalLinks_def
  by (cases "goto_result ps"; cases "pdf_result ps"; cases b; cases "replaceLinks_result ps";
      auto simp: is_PrintPdf_def split: prod.splits if_splits)

lemma isDocListPage_iff:
  "isDocListPage ps \<longleftrightarrow>
     (\<exists>n. 0 < n \<and> docCardListItem_count ps = Returns n \<and> pageContent_count ps = Returns n)"
  by (auto simp: isDocListPage_def split: outcome.splits)

text \<open>
  Claim C6, as amended. A page is classified as a listing page exactly when both
  counts can be read, the number of document cards is positive and it equals the
  number of top-level content blocks. \<^verbatim>\<open>exportPage\<close> returns the skip signal
  \<^verbatim>\<open>null\<close> exactly when the page loads and is classified so; then no PDF is printed
  and no error is raised.
\<close>

theorem listing_page_skip:
  "(isDocListPage ps \<longleftrightarrow>
      (\<exists>n. 0 < n \<and> docCardListItem_count ps = Returns n \<and> pageContent_count ps = Returns n))
   \<and> (fst (exportPage ps u out b) = Inr None \<longleftrightarrow>
        (\<exists>x. goto_result ps = Returns x) \<and> isDocListPage ps)
   \<and> (fst (exportPage ps u out b) = Inr None \<longrightarrow>
        filter is_PrintPdf (snd (exportPage ps u out b)) = [])"
  using isDocListPage_iff exportPage_skip_iff exportPage_skip_no_pdf by blast

theorem listing_page_skip_witness:
  "isDocListPage listing_page
   \<and> fst (exportPage listing_page ''http://localhost:3000/docs'' ''tmp/0.pdf'' None) = Inr None
   \<and> filter is_PrintPdf
        (snd (exportPage listing_page ''http://localhost:3000/docs'' ''tmp/0.pdf'' None)) = []"
proof -
  have a: "isDocListPage listing_page"
    by (simp add: listing_page_def content_page_def isDocListPage_def)
  have b: "fst (exportPage listing_page ''http://localhost:3000/docs'' ''tmp/0.pdf'' None) = Inr None"
    using a by (simp add: exportPage_def listing_page_def content_page_def)
  show ?thesis
    using a b listing_page_skip [of listing_page "''http://localhost:3000/docs''" "''tmp/0.pdf''" None]
    by blast
qed

text \<open>
  Claim C6 as stated fails: a page with no document card and no content block has
  equal counts, yet it is not a listing page and it is exported.
\<close>

theorem equal_counts_exported_counterexample:
  "docCardListItem_count content_page = Returns 0
   \<and> pageContent_count content_page = Returns 0
   \<and> \<not> isDocListPage content_page
   \<and> fst (exportPage content_page ''http://localhost:3000/docs/intro'' ''tmp/0.pdf'' None) =
       Inr (Some \<lparr>path = ''tmp/0.pdf'',
                   headings = [\<lparr>hlevel = 1, htext = ''A'', hid = ''a''\<rparr>],
                   url = ''http://localhost:3000/docs/intro''\<rparr>)"
  by (simp add: content_page_def isDocListPage_def exportPage_def extractHeadings_def)

section \<open>Properties of the batch export\<close>

lemma exportPage_result_fields:
  "fst (exportPage ps u out b) = Inr (Some r) \<Longrightarrow> url r = u \<and> path r = out"
  unfolding exportPage_def Let_def
  by (cases "goto_result ps"; cases "pdf_result ps"; cases b; auto split: prod.splits if_splits)

lemma exportPage_goto_once:
  "filter is_Goto (snd (exportPage ps u out b)) = [Goto u]"
  unfolding exportPage_def Let_def applyCustomStyles_events replaceInternalLinks_def
  by (cases "goto_result ps"; cases "pdf_result ps"; cases b; cases "replaceLinks_result ps";
      auto simp: is_Goto_def split: prod.splits if_splits)

lemma upt_shift: "[cur..<cur + Suc c] = cur # [Suc cur..<Suc cur + c]"
  by (subst upt_rec) simp

lemma zip_upt_Cons: "zip [i..<i + Suc n] (u # us) = (i, u) # zip [Suc i..<Suc i + n] us"
  by (simp add: upt_conv_Cons)

lemma filter_zip_ok:
  "P (i, u) \<Longrightarrow> filter P (zip [i..<i + length (u # us)] (u # us)) =
     (i, u) # filter P (zip [Suc i..<Suc i + length us] us)"
  by (simp only: length_Cons zip_upt_Cons filter.simps if_True)

lemma filter_zip_skip:
  "\<not> P (i, u) \<Longrightarrow> filter P (zip [i..<i + length (u # us)] (u # us)) =
     filter P (zip [Suc i..<Suc i + length us] us)"
  by (simp only: length_Cons zip_upt_Cons filter.simps if_False)

lemma loop_Cons_ok:
  assumes "page_ok w d b (i, u)"
  shows "\<exists>hs. exportPages_loop w d b i (u # us) (files, cur, evs) =
           exportPages_loop w d b (Suc i) us
             (files @ [\<lparr>path = path_join d (string_of_nat i @ ''.pdf''), headings = hs,
                        url = u, pageIndex = cur\<rparr>],
              Suc cur, evs @ page_events w d b (i, u))"
proof -
  obtain r ev where e: "exportPage (w i) u (path_join d (string_of_nat i @ ''.pdf'')) b = (r, ev)"
    by (cases "exportPage (w i) u (path_join d (string_of_nat i @ ''.pdf'')) b")
  from assms e obtain res where r: "r = Inr (Some res)"
    by (auto simp: page_ok_def split: sum.splits option.splits)
  from e r have "url res = u" "path res = path_join d (string_of_nat i @ ''.pdf'')"
    using exportPage_result_fields[of "w i" u "path_join d (string_of_nat i @ ''.pdf'')" b res]
    by auto
  with e r show ?thesis
    by (auto simp: Let_def page_events_def)
qed

lemma loop_Cons_skip:
  assumes "\<not> page_ok w d b (i, u)"
  shows "exportPages_loop w d b i (u # us) (files, cur, evs) =
           exportPages_loop w d b (Suc i) us (files, cur, evs @ page_events w d b (i, u))"
proof -
  obtain r ev where e: "exportPage (w i) u (path_join d (string_of_nat i @ ''.pdf'')) b = (r, ev)"
    by (cases "exportPage (w i) u (path_join d (string_of_nat i @ ''.pdf'')) b")
  with assms show ?thesis
    by (auto simp: Let_def page_events_def page_ok_def split: sum.splits option.splits)
qed

lemma loop_urls:
  "map url (fst (exportPages_loop w d b i us (files, cur, evs))) =
     map url files @ map snd (filter (page_ok w d b) (zip [i..<i + length us] us))"
proof (induction us arbitrary: i files cur evs)
  case Nil
  then show ?case by simp
next
  case (Cons u us)
  show ?case
  proof (cases "page_ok w d b (i, u)")
    case True
    from loop_Cons_ok[OF True] obtain hs where eq:
      "exportPages_loop w d b i (u # us) (files, cur, evs) =
           exportPages_loop w d b (Suc i) us
             (files @ [\<lparr>path = path_join d (string_of_nat i @ ''.pdf''), headings = hs,
                        url = u, pageIndex = cur\<rparr>],
              Suc cur, evs @ page_events w d b (i, u))" by blast
    show ?thesis
      by (simp only: eq Cons.IH filter_zip_ok[of "page_ok w d b", OF True]) simp
  next
    case False
    show ?thesis
      by (simp only: loop_Cons_skip[OF False] Cons.IH
            filter_zip_skip[of "page_ok w d b", OF False])
  qed
qed

lemma loop_indices:
  "map pageIndex (fst (exportPages_loop w d b i us (files, cur, evs))) =
     map pageIndex files @
       [cur..<cur + length (filter (page_ok w d b) (zip [i..<i + length us] us))]"
proof (induction us arbitrary: i files cur evs)
  case Nil
  then show ?case by simp
next
  case (Cons u us)
  show ?case
  proof (cases "page_ok w d b (i, u)")
    case True
    from loop_Cons_ok[OF True] obtain hs where eq:
      "exportPages_loop w d b i (u # us) (files, cur, evs) =
           exportPages_loop w d b (Suc i) us
             (files @ [\<lparr>path = path_join d (string_of_nat i @ ''.pdf''), headings = hs,
                        url = u, pageIndex = cur\<rparr>],
              Suc cur, evs @ page_events w d b (i, u))" by blast
    define c where "c = length (filter (page_ok w d b) (zip [Suc i..<Suc i + length us] us))"
    have L: "length (filter (page_ok w d b) (zip [i..<i + length (u # us)] (u # us))) = Suc c"
      unfolding c_def filter_zip_ok[of "page_ok w d b", OF True] by simp
    have "map pageIndex (fst (exportPages_loop w d b i (u # us) (files, cur, evs))) =
            map pageIndex (files @ [\<lparr>path = path_join d (string_of_nat i @ ''.pdf''),
               headings = hs, url = u, pageIndex = cur\<rparr>]) @ [Suc cur..<Suc cur + c]"
      unfolding eq c_def by (rule Cons.IH)
    also have "\<dots> = map pageIndex files @ [cur..<cur + Suc c]"
      unfolding upt_shift by simp
    finally show ?thesis unfolding L .
  next
    case False
    show ?thesis
      by (simp only: loop_Cons_skip[OF False] Cons.IH
            filter_zip_skip[of "page_ok w d b", OF False])
  qed
qed

lemma loop_events:
  "snd (snd (exportPages_loop w d b i us (files, cur, evs))) =
     evs @ concat (map (page_events w d b) (zip [i..<i + length us] us))"
proof (induction us arbitrary: i files cur evs)
  case Nil
  then show ?case by simp
next
  case (Cons u us)
  have z: "zip [i..<i + length (u # us)] (u # us) = (i, u) # zip [Suc i..<Suc i + length us] us"
    by (simp only: length_Cons zip_upt_Cons)
  show ?case
  proof (cases "page_ok w d b (i, u)")
    case True
    from loop_Cons_ok[OF True] obtain hs where eq:
      "exportPages_loop w d b i (u # us) (files, cur, evs) =
           exportPages_loop w d b (Suc i) us
             (files @ [\<lparr>path = path_join d (string_of_nat i @ ''.pdf''), headings = hs,
                        url = u, pageIndex = cur\<rparr>],
              Suc cur, evs @ page_events w d b (i, u))" by blast
    show ?thesis
      by (simp only: eq Cons.IH z) simp
  next
    case False
    show ?thesis
      by (simp only: loop_Cons_skip[OF False] Cons.IH z) simp
  qed
qed

lemma exportPages_fst:
  "fst (exportPages w urls d b) = fst (exportPages_loop w d b 0 urls ([], 0, []))"
  by (simp add: exportPages_def split: prod.splits)

lemma exportPages_snd:
  "snd (exportPages w urls d b) = snd (snd (exportPages_loop w d b 0 urls ([], 0, [])))"
  by (simp add: exportPages_def split: prod.splits)

lemma goto_events_of_pages:
  "filter is_Goto (concat (map (page_events w d b) ius)) = map (\<lambda>iu. Goto (snd iu)) ius"
  by (induction ius) (simp_all add: page_events_def exportPage_goto_once)

lemma exportPages_urls:
  "map url (fst (exportPages w urls d b)) =
     map snd (filter (page_ok w d b) (zip [0..<length urls] urls))"
  using loop_urls[of w d b 0 urls "[]" 0 "[]"] by (simp add: exportPages_fst)

lemma exportPages_indices:
  "map pageIndex (fst (exportPages w urls d b)) =
     [0..<length (filter (page_ok w d b) (zip [0..<length urls] urls))]"
  using loop_indices[of w d b 0 urls "[]" 0 "[]"] by (simp add: exportPages_fst)

lemma exportPages_gotos:
  "filter is_Goto (snd (exportPages w urls d b)) = map Goto urls"
proof -
  let ?Z = "zip [0..<length urls] urls"
  have e: "filter is_Goto (snd (exportPages w urls d b)) = map (\<lambda>iu. Goto (snd iu)) ?Z"
    using loop_events[of w d b 0 urls "[]" 0 "[]"]
    by (simp add: exportPages_snd goto_events_of_pages)
  have m: "map (\<lambda>iu. Goto (snd iu)) ?Z = map Goto (map snd ?Z)"
    by (simp only: map_map comp_def)
  have s: "map snd ?Z = urls"
    by (rule map_snd_zip) simp
  show ?thesis
    by (simp only: e m s)
qed

text \<open>
  Claim C3. For \<open>M\<close> input URLs of which \<open>K\<close> are skipped or fail, \<^verbatim>\<open>exportPages\<close>
  returns \<open>M - K\<close> records: those of the surviving URLs in input order, with the page
  indices \<open>0\<close>, \<open>\<dots>\<close>, \<open>M - K - 1\<close>. So a record's page index is the number of successful
  exports before it. Every URL of the input is navigated to, in order, whatever
  happened to the ones before it.
\<close>

theorem exportPages_contiguous_indices:
  "(let exportedFiles = fst (exportPages w urls outputDir baseUrl);
        M = length urls;
        K = length (filter (\<lambda>iu. \<not> page_ok w outputDir baseUrl iu) (zip [0..<M] urls))
    in length exportedFiles = M - K
       \<and> map pageIndex exportedFiles = [0..<M - K]
       \<and> map url exportedFiles =
           map snd (filter (page_ok w outputDir baseUrl) (zip [0..<M] urls))
       \<and> filter is_Goto (snd (exportPages w urls outputDir baseUrl)) = map Goto urls)"
proof -
  let ?Z = "zip [0..<length urls] urls"
  let ?ok = "page_ok w outputDir baseUrl"
  have split: "length (filter ?ok ?Z) + length (filter (\<lambda>iu. \<not> ?ok iu) ?Z) = length urls"
    using sum_length_filter_compl[of ?ok ?Z] by simp
  have len: "length (fst (exportPages w urls outputDir baseUrl)) = length (filter ?ok ?Z)"
    using arg_cong[OF exportPages_indices[of w urls outputDir baseUrl], of length] by simp
  have n: "length (filter ?ok ?Z) = length urls - length (filter (\<lambda>iu. \<not> ?ok iu) ?Z)"
    using split by arith
  show ?thesis
    unfolding Let_def
    using len n exportPages_indices[of w urls outputDir baseUrl]
      exportPages_urls[of w urls outputDir baseUrl]
      exportPages_gotos[of w urls outputDir baseUrl]
    by simp
qed

text \<open>
  An example: of three URLs the second is a listing page; the record of the third has
  the page index 1 and the file name of its position in the input.
\<close>

lemma exportPages_example:
  "map (\<lambda>f. (url f, path f, pageIndex f))
     (fst (exportPages three_pages [''u0'', ''u1'', ''u2''] ''tmp'' None)) =
     [(''u0'', ''tmp/0.pdf'', 0), (''u2'', ''tmp/2.pdf'', 1)]"
  by code_simp

section \<open>Properties of the merge\<close>

lemma merge_loop_Cons:
  "merge_loop env i (m # rest) (pages, off, visited, evs) =
     merge_loop env (Suc i) rest
       (pages @ copied_pages env (i, m), off + page_count env (i, m),
        visited @ [if loads env (i, m) then m\<lparr>pageIndex := off\<rparr> else m],
        evs @ [ReadFile (path m)])"
  by (simp add: copied_pages_def page_count_def loads_def Let_def split: outcome.splits)

lemma merge_loop_pages:
  "fst (merge_loop env i md (pages, off, visited, evs)) =
     pages @ concat (map (copied_pages env) (zip [i..<i + length md] md))"
proof (induction md arbitrary: i pages off visited evs)
  case Nil
  then show ?case by simp
next
  case (Cons m rest)
  have z: "zip [i..<i + length (m # rest)] (m # rest) =
             (i, m) # zip [Suc i..<Suc i + length rest] rest"
    by (simp only: length_Cons zip_upt_Cons)
  show ?case
    by (simp only: merge_loop_Cons Cons.IH z) simp
qed

lemma merge_loop_visited:
  "fst (snd (snd (merge_loop env i md (pages, off, visited, evs)))) =
     visited @ map (\<lambda>k. if loads env (zip [i..<i + length md] md ! k)
                          then (md ! k)\<lparr>pageIndex := off + sum_list (map (page_count env)
                                   (take k (zip [i..<i + length md] md)))\<rparr>
                          else md ! k) [0..<length md]"
proof (induction md arbitrary: i pages off visited evs)
  case Nil
  then show ?case by simp
next
  case (Cons m rest)
  have z: "zip [i..<i + length (m # rest)] (m # rest) =
             (i, m) # zip [Suc i..<Suc i + length rest] rest"
    by (simp only: length_Cons zip_upt_Cons)
  have u: "[0..<length (m # rest)] = 0 # map Suc [0..<length rest]"
    by (simp add: upt_conv_Cons map_Suc_upt del: upt_Suc)
  show ?case
    by (simp only: merge_loop_Cons Cons.IH z u) (simp add: add.assoc)
qed

lemma merge_loop_events:
  "snd (snd (snd (merge_loop env i md (pages, off, visited, evs)))) =
     evs @ map (\<lambda>m. ReadFile (path m)) md"
proof (induction md arbitrary: i pages off visited evs)
  case Nil
  then show ?case by simp
next
  case (Cons m rest)
  show ?case
    by (simp only: merge_loop_Cons Cons.IH) simp
qed

lemma merge_nonempty:
  assumes "md \<noteq> []"
  shows "\<exists>r evs. merge env (Some md) out =
           (r, fst (snd (snd (merge_loop env 0 md ([], 0, [], [])))), evs)
         \<and> (writes_ok env md out \<longrightarrow> r = Inr (out, save (merged_pages env md)))
         \<and> (\<not> writes_ok env md out \<longrightarrow>
              (\<exists>m. r = Inl (PdfMergeError ''Failed to merge PDF files'' (Some (LibError m)))))
         \<and> list_all is_merge_effect evs"
proof -
  obtain pages off md' evs where
    l: "merge_loop env 0 md ([], 0, [], []) = (pages, off, md', evs)"
    by (cases "merge_loop env 0 md ([], 0, [], [])") auto
  have p: "pages = merged_pages env md"
    using merge_loop_pages[of env 0 md "[]" 0 "[]" "[]"] l by (simp add: merged_pages_def)
  have e: "evs = map (\<lambda>m. ReadFile (path m)) md"
    using merge_loop_events[of env 0 md "[]" 0 "[]" "[]"] l by simp
  have r: "list_all is_merge_effect (map (\<lambda>m. ReadFile (path m)) md)"
    by (induction md) (simp_all add: is_merge_effect_def)
  show ?thesis
    using assms r
    by (cases "ensureDir_result env out"; cases "save_result env (merged_pages env md)";
        cases "writeFile_result env out")
       (simp_all add: merge_def l p e writes_ok_def is_merge_effect_def)
qed

lemma merge_visited_nth:
  assumes "md \<noteq> []" and "k < length md"
  shows "fst (snd (merge env (Some md) out)) ! k =
           (if loads env (k, md ! k) then (md ! k)\<lparr>pageIndex := offset_before env md k\<rparr>
            else md ! k)"
proof -
  from merge_nonempty[OF assms(1), of env out]
  have "fst (snd (merge env (Some md) out)) =
          fst (snd (snd (merge_loop env 0 md ([], 0, [], []))))"
    by auto
  then show ?thesis
    using assms(2) merge_loop_visited[of env 0 md "[]" 0 "[]" "[]"]
    by (simp add: offset_before_def)
qed

lemma merge_visited_length:
  assumes "md \<noteq> []"
  shows "length (fst (snd (merge env (Some md) out))) = length md"
proof -
  from merge_nonempty[OF assms, of env out]
  have "fst (snd (merge env (Some md) out)) =
          fst (snd (snd (merge_loop env 0 md ([], 0, [], []))))"
    by auto
  then show ?thesis
    using merge_loop_visited[of env 0 md "[]" 0 "[]" "[]"] by simp
qed

lemma merged_pages_length:
  "length (merged_pages env md) =
     sum_list (map (page_count env) (zip [0..<length md] md))"
proof -
  have "page_count env = (\<lambda>im. length (copied_pages env im))"
    by (simp add: fun_eq_iff page_count_def)
  then show ?thesis
    by (simp add: merged_pages_def length_concat comp_def)
qed

lemma map_three:
  "length xs = 3 \<Longrightarrow> map f xs = [f (xs ! 0), f (xs ! 1), f (xs ! 2)]"
  by (auto simp: length_Suc_conv numeral_3_eq_3 numeral_2_eq_2)

text \<open>
  Claim C1, as amended. For a non-empty list of artifact records and an output that
  can be written, \<^verbatim>\<open>merge\<close> writes a document whose pages are the copied pages
  of the artifacts that load, in input order, so their number is the sum of the page
  counts, unless that sum is 0: then the document written has one page, the blank page
  that \<^verbatim>\<open>save\<close> adds. A record whose artifact loads has its \<^verbatim>\<open>pageIndex\<close>
  rewritten to the number of pages merged before it; a record whose artifact fails to
  load or copy contributes no page and is left as it was, and the records after it are
  merged.
\<close>

theorem merge_page_offsets:
  assumes "md \<noteq> []" and "writes_ok env md outputPath"
  shows "fst (merge env (Some md) outputPath) = Inr (outputPath, save (merged_pages env md))
     \<and> save (merged_pages env md) =
         (if sum_list (map (page_count env) (zip [0..<length md] md)) = 0 then [DefaultPage]
          else map CopiedPage (merged_pages env md))
     \<and> length (save (merged_pages env md)) =
         (if sum_list (map (page_count env) (zip [0..<length md] md)) = 0 then 1
          else sum_list (map (page_count env) (zip [0..<length md] md)))
     \<and> length (fst (snd (merge env (Some md) outputPath))) = length md
     \<and> (\<forall>k<length md.
          (\<not> loads env (k, md ! k) \<longrightarrow> copied_pages env (k, md ! k) = []) \<and>
          fst (snd (merge env (Some md) outputPath)) ! k =
            (if loads env (k, md ! k)
             then (md ! k)\<lparr>pageIndex := offset_before env md k\<rparr>
             else md ! k))"
proof -
  let ?n = "sum_list (map (page_count env) (zip [0..<length md] md))"
  have a: "fst (merge env (Some md) outputPath) = Inr (outputPath, save (merged_pages env md))"
    using merge_nonempty[OF assms(1), of env outputPath] assms(2) by auto
  have b: "\<not> loads env (k, md ! k) \<longrightarrow> copied_pages env (k, md ! k) = []" for k
    by (simp add: loads_def copied_pages_def split: outcome.splits)
  have n: "merged_pages env md = [] \<longleftrightarrow> ?n = 0"
    using merged_pages_length[of env md] by (simp only: length_0_conv[symmetric])
  have c: "save (merged_pages env md) =
             (if ?n = 0 then [DefaultPage] else map CopiedPage (merged_pages env md))"
    using n by (simp add: save_def)
  have d: "length (save (merged_pages env md)) = (if ?n = 0 then 1 else ?n)"
    using merged_pages_length[of env md] by (simp add: c)
  show ?thesis
    using a b c d merge_visited_length[OF assms(1), of env outputPath]
      merge_visited_nth[OF assms(1), of _ env outputPath]
    by simp
qed

theorem merge_page_offsets_witness:
  "demo_metadata \<noteq> [] \<and> writes_ok demo_merge_env demo_metadata ''out/docs.pdf''
   \<and> fst (merge demo_merge_env (Some demo_metadata) ''out/docs.pdf'') =
       Inr (''out/docs.pdf'', [CopiedPage 10, CopiedPage 11, CopiedPage 12, CopiedPage 30])
   \<and> map pageIndex (fst (snd (merge demo_merge_env (Some demo_metadata) ''out/docs.pdf''))) =
       [0, 1, 3]"
proof -
  have n: "demo_metadata \<noteq> []"
    by (simp add: demo_metadata_def)
  have w: "writes_ok demo_merge_env demo_metadata ''out/docs.pdf''"
    by (simp add: writes_ok_def demo_merge_env_def)
  have p: "save (merged_pages demo_merge_env demo_metadata) =
             [CopiedPage 10, CopiedPage 11, CopiedPage 12, CopiedPage 30]"
    by code_simp
  have l: "length demo_metadata = 3"
    by (simp add: demo_metadata_def)
  have k: "loads demo_merge_env (0, demo_metadata ! 0)"
          "\<not> loads demo_merge_env (1, demo_metadata ! 1)"
          "loads demo_merge_env (2, demo_metadata ! 2)"
    by code_simp+
  have o: "offset_before demo_merge_env demo_metadata 0 = 0"
          "offset_before demo_merge_env demo_metadata 2 = 3"
    by code_simp+
  have i: "pageIndex (demo_metadata ! 1) = 1"
    by (simp add: demo_metadata_def)
  let ?md' = "fst (snd (merge demo_merge_env (Some demo_metadata) ''out/docs.pdf''))"
  from merge_page_offsets[OF n w]
  have r: "fst (merge demo_merge_env (Some demo_metadata) ''out/docs.pdf'') =
            Inr (''out/docs.pdf'', save (merged_pages demo_merge_env demo_metadata))"
    and len: "length ?md' = length demo_metadata"
    and nth: "\<forall>k<length demo_metadata.
          ?md' ! k =
            (if loads demo_merge_env (k, demo_metadata ! k)
             then (demo_metadata ! k)\<lparr>pageIndex := offset_before demo_merge_env demo_metadata k\<rparr>
             else demo_metadata ! k)"
    by blast+
  have "pageIndex (?md' ! 0) = 0" "pageIndex (?md' ! 1) = 1" "pageIndex (?md' ! 2) = 3"
    using nth l k o i by simp_all
  moreover have "map pageIndex ?md' = [pageIndex (?md' ! 0), pageIndex (?md' ! 1), pageIndex (?md' ! 2)]"
    using len l by (simp add: map_three)
  ultimately show ?thesis
    using n w r p by simp
qed

text \<open>
  Claim C1 as stated fails: a single artifact that loads and has no page gives the
  page counts \<open>[0]\<close>, and the document written has one page, not none. The same
  document is written when no artifact of a non-empty list can be read.
\<close>

theorem merge_default_page_counterexample:
  "loads no_page_env (0, no_page_metadata ! 0)
   \<and> map (page_count no_page_env) (zip [0..<length no_page_metadata] no_page_metadata) = [0]
   \<and> fst (merge no_page_env (Some no_page_metadata) ''out/docs.pdf'') =
       Inr (''out/docs.pdf'', [DefaultPage])
   \<and> length (snd (projr (fst (merge no_page_env (Some no_page_metadata) ''out/docs.pdf'')))) = 1
   \<and> sum_list
         (map (page_count no_page_env) (zip [0..<length no_page_metadata] no_page_metadata)) = 0
   \<and> map (loads demo_merge_env) (zip [0..<length unreadable_metadata] unreadable_metadata) =
       [False, False]
   \<and> fst (merge demo_merge_env (Some unreadable_metadata) ''out/docs.pdf'') =
       Inr (''out/docs.pdf'', [DefaultPage])"
  by code_simp

section \<open>Properties of the sidebar expander\<close>

lemma and_then_events:
  assumes "list_all P (snd c)" and "\<And>v. list_all P (snd (f v))"
  shows "list_all P (snd (and_then c f))"
proof (cases c)
  case (Pair r evs)
  show ?thesis
  proof (cases r)
    case (Throws m)
    with Pair assms(1) show ?thesis by (simp add: and_then_def)
  next
    case (Returns v)
    with Pair assms(1) assms(2)[of v] show ?thesis
      by (auto simp: and_then_def split: prod.splits)
  qed
qed

lemma try_catch_events:
  assumes "list_all P (snd body)" and "\<And>m. list_all P (snd (handler m))"
  shows "list_all P (snd (try_catch body handler))"
proof (cases body)
  case (Pair r evs)
  show ?thesis
  proof (cases r)
    case (Throws m)
    with Pair assms(1) assms(2)[of m] show ?thesis
      by (auto simp: try_catch_def split: prod.splits)
  next
    case (Returns v)
    with Pair assms(1) show ?thesis by (simp add: try_catch_def)
  qed
qed

lemma and_then_Returns:
  "fst c = Returns v \<Longrightarrow> and_then c f = (fst (f v), snd c @ snd (f v))"
  by (cases c) (simp add: and_then_def split: prod.splits)


lemma try_catch_Returns:
  "fst body = Returns v \<Longrightarrow> try_catch body handler = body"
  by (cases body) (simp add: try_catch_def)

lemma try_catch_Throws:
  "fst body = Throws m \<Longrightarrow>
     try_catch body handler = (fst (handler m), snd body @ snd (handler m))"
  by (cases body) (simp add: try_catch_def split: prod.splits)

lemma try_catch_returns:
  assumes "\<And>m. \<exists>v. fst (handler m) = Returns v"
  shows "\<exists>v. fst (try_catch body handler) = Returns v"
proof (cases "fst body")
  case (Throws m)
  with assms[of m] show ?thesis by (simp add: try_catch_Throws)
next
  case (Returns v)
  then show ?thesis by (simp add: try_catch_Returns)
qed

lemma and_then_returns:
  assumes "\<exists>v. fst c = Returns v" and "\<And>v. \<exists>w. fst (f v) = Returns w"
  shows "\<exists>w. fst (and_then c f) = Returns w"
proof -
  from assms(1) obtain v where c: "fst c = Returns v" by blast
  from assms(2)[of v] show ?thesis by (simp add: and_then_Returns[OF c])
qed



lemma expandSubItem_returns:
  "fst (expandSubItem strategies node lv i) = Returns ()"
proof -
  have "\<exists>v. fst (expandSubItem strategies node lv i) = Returns v"
    by (simp only: expandSubItem.simps) (rule try_catch_returns, simp)
  then show ?thesis by simp
qed

lemma expandSubItems_Cons:
  "expandSubItems strategies (a # items) lv i =
     (fst (expandSubItems strategies items lv (Suc i)),
      snd (expandSubItem strategies a lv i) @ snd (expandSubItems strategies items lv (Suc i)))"
  by (simp only: expandSubItems.simps and_then_Returns[OF expandSubItem_returns])

lemma expandSubItems_returns:
  "fst (expandSubItems strategies items lv i) = Returns ()"
  by (induction items arbitrary: i) (simp_all add: expandSubItems_Cons del: expandSubItems.simps(2))


lemma expandTopItem_returns:
  "fst (expandTopItem strategies node i) = Returns ()"
proof -
  have "\<exists>v. fst (expandTopItem strategies node i) = Returns v"
    unfolding expandTopItem_def by (rule try_catch_returns) simp
  then show ?thesis by simp
qed

lemma expandTopItems_Cons:
  "expandTopItems strategies (a # items) i =
     (fst (expandTopItems strategies items (Suc i)),
      snd (expandTopItem strategies a i) @ snd (expandTopItems strategies items (Suc i)))"
  by (simp only: expandTopItems.simps and_then_Returns[OF expandTopItem_returns])






lemma clickWithRetry_events:
  "list_all is_item_event (snd (clickWithRetry strategies el lv i))"
  by (induction strategies)
     (auto simp: is_item_event_def split: option.splits outcome.splits prod.splits)

lemma ensureVisible_events:
  "list_all is_item_event (snd (ensureVisible el))"
  unfolding ensureVisible_def Let_def
  by (rule and_then_events) (auto simp: is_item_event_def)

lemma click_and_descend_events:
  assumes "\<And>l. list_all is_item_event (snd (expandSubSidebar strategies node l))"
  shows "list_all is_item_event
           (snd (and_then (clickWithRetry strategies (elementToClick node) lv i) (\<lambda>_.
                 and_then (animation_wait node, []) (\<lambda>_.
                 expandSubSidebar strategies node l))))"
  by (intro and_then_events clickWithRetry_events assms) simp

lemma subItem_try_events_step:
  assumes "\<And>l. list_all is_item_event (snd (expandSubSidebar strategies node l))"
  shows "list_all is_item_event (snd (subItem_try strategies node lv i))"
proof (cases "isActive node")
  case True
  then show ?thesis by (simp only: subItem_try.simps if_True assms)
next
  case False
  have cont: "list_all is_item_event
       (snd (if \<not> v then (Returns (), [WarnSkipNonVisible (lv + 1) i])
             else and_then (clickWithRetry strategies (elementToClick node) lv i) (\<lambda>_.
                  and_then (animation_wait node, []) (\<lambda>_.
                  expandSubSidebar strategies node (lv + 1)))))" for v
  proof (cases v)
    case True
    then show ?thesis
      by (simp only: not_True_eq_False if_False click_and_descend_events[OF assms])
  next
    case False
    then show ?thesis by (simp add: is_item_event_def)
  qed
  show ?thesis
    by (simp only: subItem_try.simps False if_False)
       (rule and_then_events, rule ensureVisible_events, rule cont)
qed

lemma expandSubItems_events_step:
  assumes "\<And>n l. n \<in> set items \<Longrightarrow>
             list_all is_item_event (snd (expandSubSidebar strategies n l))"
  shows "list_all is_item_event (snd (expandSubItems strategies items lv i))"
  using assms
proof (induction items arbitrary: i)
  case Nil
  show ?case by simp
next
  case (Cons currentItem rest)
  have sub: "\<And>l. list_all is_item_event (snd (expandSubSidebar strategies currentItem l))"
    using Cons.prems by simp
  have rest: "list_all is_item_event (snd (expandSubItems strategies rest lv (Suc i)))"
    using Cons.IH Cons.prems by simp
  have handler: "list_all is_item_event (snd (Returns (), [WarnItemError (lv + 1) i]))"
    by (simp add: is_item_event_def)
  have "list_all is_item_event (snd (expandSubItem strategies currentItem lv i))"
    by (simp only: expandSubItem.simps)
       (rule try_catch_events, rule subItem_try_events_step, rule sub, rule handler)
  with rest show ?case
    by (simp add: expandSubItems_Cons del: expandSubItems.simps(2) expandSubItem.simps)
qed

lemma expandSubSidebar_events:
  "list_all is_item_event (snd (expandSubSidebar strategies node lv))"
proof (induction node arbitrary: lv)
  case (NavNode ca cc c se aw sub)
  have handler: "\<And>m. list_all is_item_event (snd (Returns (), [WarnSubSidebarError (lv + 1)]))"
    by (simp add: is_item_event_def)
  show ?case
  proof (cases sub)
    case (Throws m)
    show ?thesis
      by (simp only: Throws expandSubSidebar.simps) (rule try_catch_events, simp, rule handler)
  next
    case (Returns items)
    have "list_all is_item_event (snd (expandSubItems strategies items lv 0))"
      by (rule expandSubItems_events_step) (rule NavNode.IH, simp_all add: Returns)
    then show ?thesis
      by (simp only: Returns expandSubSidebar.simps)
         (rule try_catch_events, assumption, rule handler)
  qed
qed


lemma filter_none: "list_all (\<lambda>e. \<not> P e) xs \<Longrightarrow> filter P xs = []"
  by (induction xs) simp_all


lemma topItem_try_events:
  "\<exists>rest. snd (topItem_try strategies node i) = DebugTopItem i # rest
          \<and> list_all is_item_event rest"
proof -
  let ?inner = "if isActive node then expandSubSidebar strategies node 1
       else
         and_then (ensureVisible (elementToClick node)) (\<lambda>isVisible.
         and_then (clickWithRetry strategies (elementToClick node) 0 i) (\<lambda>_.
         and_then (animation_wait node, []) (\<lambda>_.
         expandSubSidebar strategies node 1)))"
  have inner: "list_all is_item_event (snd ?inner)"
  proof (cases "isActive node")
    case True
    then show ?thesis by (simp only: if_True expandSubSidebar_events)
  next
    case False
    show ?thesis
      by (simp only: False if_False)
         (rule and_then_events, rule ensureVisible_events,
          rule click_and_descend_events, rule expandSubSidebar_events)
  qed
  have "topItem_try strategies node i = (fst ?inner, DebugTopItem i # snd ?inner)"
    unfolding topItem_try_def
    by (subst and_then_Returns[of _ "()"]) simp_all
  with inner show ?thesis by simp
qed






text \<open>
  For a top-level item the result of \<^verbatim>\<open>ensureVisible\<close> is not looked at: the
  click is attempted on a control that is not visible.
\<close>

lemma expandTopItem_hidden_example:
  "expandTopItem default_strategies hidden_item 0 =
     (Returns (), [DebugTopItem 0, ScrollIntoView, Click ''click''])"
  by code_simp


section \<open>Properties of the link collector\<close>

lemma item_events_are_sidebar_events:
  "list_all is_item_event xs \<Longrightarrow> list_all is_sidebar_event xs"
proof (induction xs)
  case Nil
  show ?case by simp
next
  case (Cons e xs)
  then have "is_item_event e" by simp
  then have "is_sidebar_event e"
    by (cases e) (simp_all add: is_item_event_def is_sidebar_event_def)
  with Cons show ?case by simp
qed

lemma expandTopItem_sidebar_events:
  "list_all is_sidebar_event (snd (expandTopItem strategies node i))"
proof -
  obtain rest where r: "snd (topItem_try strategies node i) = DebugTopItem i # rest"
    and l: "list_all is_item_event rest"
    using topItem_try_events by blast
  have t: "list_all is_sidebar_event (snd (topItem_try strategies node i))"
    using item_events_are_sidebar_events[OF l] by (simp add: r is_sidebar_event_def)
  show ?thesis
    unfolding expandTopItem_def
    by (rule try_catch_events, rule t) (simp add: is_sidebar_event_def)
qed

lemma expandTopItems_sidebar_events:
  "list_all is_sidebar_event (snd (expandTopItems strategies items i))"
  by (induction items arbitrary: i)
     (simp_all add: expandTopItems_Cons expandTopItem_sidebar_events
        del: expandTopItems.simps(2))

lemma expandAllWithJavaScript_events:
  "list_all is_sidebar_event (snd (expandAllWithJavaScript e w))"
  unfolding expandAllWithJavaScript_def
  by (intro try_catch_events and_then_events) (simp_all add: is_sidebar_event_def)

lemma expandAllManually_events:
  "list_all is_sidebar_event (snd (expandAllManually strategies es))"
  unfolding expandAllManually_def
  by (intro and_then_events expandTopItems_sidebar_events) simp

lemma expandAll_events:
  "list_all is_sidebar_event (snd (expandAll strategies es))"
  unfolding expandAll_def
  by (intro and_then_events expandAllWithJavaScript_events expandAllManually_events) simp_all

lemma collectAllLinks_events:
  "list_all (\<lambda>e. is_Goto e \<or> is_sidebar_event e) (snd (collectAllLinks strategies cs b))"
proof -
  obtain r ev where x: "expandAll strategies (expander cs) = (r, ev)"
    by (cases "expandAll strategies (expander cs)")
  have "list_all is_sidebar_event ev"
    using expandAll_events[of strategies "expander cs"] x by simp
  then have e: "list_all (\<lambda>e. is_Goto e \<or> is_sidebar_event e) ev"
    by (induction ev) simp_all
  show ?thesis
    unfolding collectAllLinks_def
    using e
    by (cases "base_goto_result cs"; cases "load_wait_result cs";
        cases "waitForSelector_result cs"; cases "level1_count cs"; cases r;
        cases "expanded_wait_result cs"; cases "sidebar_links cs")
       (simp_all add: x is_Goto_def)
qed

lemma collectAllLinks_result:
  assumes "fst (collectAllLinks strategies cs b) = Inr links"
  shows "matched_hrefs cs = Returns links"
proof -
  obtain r ev where x: "expandAll strategies (expander cs) = (r, ev)"
    by (cases "expandAll strategies (expander cs)")
  show ?thesis
    using assms
    unfolding collectAllLinks_def collectLinksAlternative_def matched_hrefs_def
    by (cases "base_goto_result cs"; cases "load_wait_result cs";
        cases "waitForSelector_result cs"; cases "level1_count cs"; cases r;
        cases "expanded_wait_result cs"; cases "sidebar_links cs";
        cases "alternative_links cs")
       (simp_all add: x)
qed

text \<open>
  Claim C5, as amended. On both paths, the sidebar extraction and the flat fallback,
  the list that \<^verbatim>\<open>collectAllLinks\<close> returns is the list of the addresses of the
  anchors that match the link selector, in document order, one entry for every anchor;
  nothing removes duplicates, so the list is free of duplicates exactly when no two
  matching anchors have the same address.
\<close>

theorem collectAllLinks_returns_anchor_hrefs:
  assumes "fst (collectAllLinks strategies cs baseUrl) = Inr links"
  shows "matched_hrefs cs = Returns links
     \<and> (distinct links \<longleftrightarrow> (\<exists>hrefs. matched_hrefs cs = Returns hrefs \<and> distinct hrefs))"
  using collectAllLinks_result[OF assms] by simp

theorem collectAllLinks_returns_anchor_hrefs_witness:
  "fst (collectAllLinks default_strategies sidebar_with_repeated_link
          ''http://localhost:3000/docs'') =
     Inr [''http://localhost:3000/docs/intro'', ''http://localhost:3000/docs/guide'',
          ''http://localhost:3000/docs/intro'']
   \<and> matched_hrefs sidebar_with_repeated_link =
       Returns [''http://localhost:3000/docs/intro'', ''http://localhost:3000/docs/guide'',
                ''http://localhost:3000/docs/intro'']"
proof -
  have r: "fst (collectAllLinks default_strategies sidebar_with_repeated_link
                  ''http://localhost:3000/docs'') =
             Inr [''http://localhost:3000/docs/intro'', ''http://localhost:3000/docs/guide'',
                  ''http://localhost:3000/docs/intro'']"
    by code_simp
  from collectAllLinks_returns_anchor_hrefs[OF r] r show ?thesis by simp
qed

text \<open>
  Claim C5 as stated fails on both paths: when two anchors of the sidebar, or of the
  document, lead to the same page, its address is returned twice.
\<close>

theorem collectAllLinks_duplicates_counterexample:
  "fst (collectAllLinks default_strategies sidebar_with_repeated_link
          ''http://localhost:3000/docs'') =
     Inr [''http://localhost:3000/docs/intro'', ''http://localhost:3000/docs/guide'',
          ''http://localhost:3000/docs/intro'']
   \<and> \<not> distinct [''http://localhost:3000/docs/intro'', ''http://localhost:3000/docs/guide'',
                   ''http://localhost:3000/docs/intro'']
   \<and> fst (collectAllLinks default_strategies flat_site_with_repeated_link
             ''http://localhost:3000/docs'') =
       Inr [''http://localhost:3000/docs/intro'', ''http://localhost:3000/docs/intro'']
   \<and> \<not> distinct [''http://localhost:3000/docs/intro'', ''http://localhost:3000/docs/intro'']"
proof -
  have a: "fst (collectAllLinks default_strategies sidebar_with_repeated_link
                  ''http://localhost:3000/docs'') =
     Inr [''http://localhost:3000/docs/intro'', ''http://localhost:3000/docs/guide'',
          ''http://localhost:3000/docs/intro'']"
    by code_simp
  have b: "fst (collectAllLinks default_strategies flat_site_with_repeated_link
             ''http://localhost:3000/docs'') =
       Inr [''http://localhost:3000/docs/intro'', ''http://localhost:3000/docs/intro'']"
    by code_simp
  show ?thesis using a b by simp
qed

section \<open>Properties of the pipeline\<close>

lemma exportPage_None_events:
  "list_all is_page_event (snd (exportPage ps u out None))"
proof -
  have "list_all (\<lambda>l. l \<noteq> None) (map Some (page_hrefs ps))"
    by (induction "page_hrefs ps") (simp_all add: list_all_iff)
  then show ?thesis
    unfolding exportPage_def Let_def applyCustomStyles_events
    by (cases "goto_result ps"; cases "pdf_result ps")
       (simp_all add: is_page_event_def)
qed

lemma list_all_concat_map:
  "(\<And>x. list_all P (f x)) \<Longrightarrow> list_all P (concat (map f xs))"
  by (induction xs) simp_all

lemma exportPages_None_events:
  "list_all is_page_event (snd (exportPages w urls d None))"
proof -
  have "snd (exportPages w urls d None) =
          concat (map (page_events w d None) (zip [0..<length urls] urls))"
    using loop_events[of w d None 0 urls "[]" 0 "[]"] by (simp add: exportPages_snd)
  then show ?thesis
    by (simp add: list_all_concat_map page_events_def exportPage_None_events)
qed

lemma merge_events:
  "list_all is_merge_effect (snd (snd (merge env metadata out)))"
proof (cases metadata)
  case None
  then show ?thesis by (simp add: merge_def)
next
  case (Some md)
  show ?thesis
  proof (cases "md = []")
    case True
    with Some show ?thesis by (simp add: merge_def)
  next
    case False
    from merge_nonempty[OF False, of env out] Some show ?thesis by auto
  qed
qed

lemma list_all_mono:
  "list_all P xs \<Longrightarrow> (\<And>x. P x \<Longrightarrow> Q x) \<Longrightarrow> list_all Q xs"
  by (induction xs) simp_all

lemma export_steps_events:
  "list_all is_try_event (snd (export_steps xs u out))"
proof -
  obtain r1 ev1 where v: "verifyDocusaurusRunning xs u = (r1, ev1)"
    by (cases "verifyDocusaurusRunning xs u")
  have e1: "list_all is_try_event ev1"
    using v
    by (auto simp: verifyDocusaurusRunning_def is_try_event_def is_page_event_def
          split: outcome.splits)
  obtain r2 ev2 where c: "collectAllLinks (retry_strategies xs) (collector xs) u = (r2, ev2)"
    by (cases "collectAllLinks (retry_strategies xs) (collector xs) u")
  have "list_all (\<lambda>e. is_Goto e \<or> is_sidebar_event e) ev2"
    using collectAllLinks_events[of "retry_strategies xs" "collector xs" u] c by simp
  then have e2: "list_all is_try_event ev2"
  proof (rule list_all_mono)
    fix e assume "is_Goto e \<or> is_sidebar_event e"
    then show "is_try_event e"
      by (cases e) (simp_all add: is_Goto_def is_try_event_def is_page_event_def)
  qed
  have e3: "list_all is_try_event (snd (exportPages (pages_world xs) links d None))" for links d
    by (rule list_all_mono[OF exportPages_None_events]) (simp add: is_try_event_def)
  have e4: "list_all is_try_event (snd (snd (merge (merger xs) md p)))" for md p
    by (rule list_all_mono[OF merge_events]) (simp add: is_try_event_def)
  have t: "is_try_event (CreateTempDir d)" "is_try_event (RemoveDir d)" for d
    by (simp_all add: is_try_event_def)
  show ?thesis
  proof (cases r1)
    case (Inl err)
    with v e1 show ?thesis by (simp add: export_steps_def)
  next
    case (Inr ok)
    show ?thesis
    proof (cases "createTempDirectory_result xs")
      case (Throws m)
      with v Inr e1 show ?thesis by (simp add: export_steps_def Let_def)
    next
      case (Returns tempDir)
      show ?thesis
      proof (cases r2)
        case (Inl err)
        with v Inr Returns c e1 e2 t show ?thesis by (simp add: export_steps_def Let_def)
      next
        case links: (Inr links)
        obtain files ev3 where p: "exportPages (pages_world xs) links tempDir None = (files, ev3)"
          by (cases "exportPages (pages_world xs) links tempDir None")
        have e3': "list_all is_try_event ev3"
          using e3[of links tempDir] p by simp
        obtain r4 md' ev4 where
          m: "merge (merger xs) (Some files) (resolved_fullPath xs out) = (r4, md', ev4)"
          by (cases "merge (merger xs) (Some files) (resolved_fullPath xs out)") auto
        have e4': "list_all is_try_event ev4"
          using e4[of "Some files" "resolved_fullPath xs out"] m by simp
        show ?thesis
          using v Inr Returns c links p m e1 e2 e3' e4' t
          by (cases r4; cases "removeDirectory_result xs")
             (simp_all add: export_steps_def Let_def)
      qed
    qed
  qed
qed

lemma initialize_cases:
  "initialize xs =
     (case launch_result xs of
        Throws m \<Rightarrow> (Throws m, False, [LaunchBrowser])
      | Returns _ \<Rightarrow>
          (case newContext_result xs of
             Throws m \<Rightarrow> (Throws m, True, [LaunchBrowser])
           | Returns _ \<Rightarrow>
               (case newPage_result xs of
                  Throws m \<Rightarrow> (Throws m, True, [LaunchBrowser])
                | Returns _ \<Rightarrow> (Returns (), True, [LaunchBrowser]))))"
  by (simp add: initialize_def)

lemma export_try_browser:
  "fst (snd (export_try xs u out)) \<longleftrightarrow> (\<exists>x. launch_result xs = Returns x)"
  unfolding export_try_def initialize_def
  by (cases "launch_result xs"; cases "newContext_result xs"; cases "newPage_result xs")
     (simp_all split: prod.splits)

lemma export_try_events:
  "list_all is_try_event (snd (snd (export_try xs u out)))"
proof -
  have l: "is_try_event LaunchBrowser"
    by (simp add: is_try_event_def)
  obtain r ev where s: "export_steps xs u out = (r, ev)"
    by (cases "export_steps xs u out")
  have "list_all is_try_event ev"
    using export_steps_events[of xs u out] s by simp
  with l show ?thesis
    unfolding export_try_def initialize_def
    by (cases "launch_result xs"; cases "newContext_result xs"; cases "newPage_result xs")
       (simp_all add: s)
qed

lemma export_events:
  "snd (export xs u out) =
     snd (snd (export_try xs u out)) @
       (if (\<exists>x. launch_result xs = Returns x) then [CloseBrowser] else [])"
proof -
  obtain r b ev where t: "export_try xs u out = (r, b, ev)"
    by (cases "export_try xs u out") auto
  have "b \<longleftrightarrow> (\<exists>x. launch_result xs = Returns x)"
    using export_try_browser[of xs u out] t by simp
  then show ?thesis
    by (cases "close_result xs") (auto simp: export_def t)
qed

lemma export_result:
  "fst (export xs u out) =
     (if (\<exists>x. launch_result xs = Returns x)
      then (case close_result xs of
              Throws m \<Rightarrow> Inl (LibError m)
            | Returns _ \<Rightarrow> fst (export_try xs u out))
      else fst (export_try xs u out))"
proof -
  obtain r b ev where t: "export_try xs u out = (r, b, ev)"
    by (cases "export_try xs u out") auto
  have "b \<longleftrightarrow> (\<exists>x. launch_result xs = Returns x)"
    using export_try_browser[of xs u out] t by simp
  then show ?thesis
    by (cases "close_result xs") (auto simp: export_def t)
qed

lemma try_event_not_close: "is_try_event e \<Longrightarrow> \<not> is_CloseBrowser e"
  by (cases e)
     (simp_all add: is_try_event_def is_page_event_def is_sidebar_event_def
        is_merge_effect_def is_CloseBrowser_def)

lemma try_event_links_untouched: "is_try_event e \<Longrightarrow> links_untouched e"
  by (cases e)
     (simp_all add: is_try_event_def is_page_event_def is_sidebar_event_def
        is_merge_effect_def links_untouched_def)

lemma try_event_not_replace: "is_try_event e \<Longrightarrow> \<not> is_ReplaceInternalLinks e"
  by (cases e)
     (simp_all add: is_try_event_def is_page_event_def is_sidebar_event_def
        is_merge_effect_def is_ReplaceInternalLinks_def)

lemma export_try_no_close:
  "filter is_CloseBrowser (snd (snd (export_try xs u out))) = []"
  by (rule filter_none, rule list_all_mono[OF export_try_events]) (rule try_event_not_close)

text \<open>
  Claim C9. When the browser has been launched, the last effect of \<^verbatim>\<open>export\<close> is
  the closing of the browser, on every path through the \<^verbatim>\<open>try\<close> block, whether the
  block ended with a result or with an error; the block itself never closes it. The
  result of \<^verbatim>\<open>export\<close> is then the result or the error of the block, unless
  \<^verbatim>\<open>close\<close> itself rejects.
\<close>

theorem export_closes_browser:
  assumes "\<exists>x. launch_result xs = Returns x"
  shows "snd (export xs u outputPath) = snd (snd (export_try xs u outputPath)) @ [CloseBrowser]
     \<and> last (snd (export xs u outputPath)) = CloseBrowser
     \<and> filter is_CloseBrowser (snd (snd (export_try xs u outputPath))) = []
     \<and> fst (export xs u outputPath) =
         (case close_result xs of
            Throws m \<Rightarrow> Inl (LibError m)
          | Returns _ \<Rightarrow> fst (export_try xs u outputPath))"
  using assms export_events[of xs u outputPath] export_result[of xs u outputPath]
    export_try_no_close[of xs u outputPath]
  by simp

theorem export_closes_browser_witness:
  "(\<exists>x. launch_result unreachable_run = Returns x)
   \<and> export unreachable_run ''http://localhost:3000/docs'' ''docs.pdf'' =
       (Inl (ExportError
               ''Failed to connect to Docusaurus at http://localhost:3000/docs. Make sure the server is running.''
               (Some (LibError ''net::ERR_CONNECTION_REFUSED''))),
        [LaunchBrowser, Goto ''http://localhost:3000/docs'', CloseBrowser])
   \<and> (\<exists>x. launch_result demo_run = Returns x)
   \<and> fst (export demo_run ''http://localhost:3000/docs'' ''docs.pdf'') = Inr ''/work/docs.pdf''
   \<and> last (snd (export demo_run ''http://localhost:3000/docs'' ''docs.pdf'')) = CloseBrowser"
proof -
  have a: "\<exists>x. launch_result unreachable_run = Returns x"
    by (simp add: unreachable_run_def listing_only_run_def)
  have b: "\<exists>x. launch_result demo_run = Returns x"
    by (simp add: demo_run_def listing_only_run_def)
  have c: "export unreachable_run ''http://localhost:3000/docs'' ''docs.pdf'' =
       (Inl (ExportError
               ''Failed to connect to Docusaurus at http://localhost:3000/docs. Make sure the server is running.''
               (Some (LibError ''net::ERR_CONNECTION_REFUSED''))),
        [LaunchBrowser, Goto ''http://localhost:3000/docs'', CloseBrowser])"
    by code_simp
  have d: "fst (export demo_run ''http://localhost:3000/docs'' ''docs.pdf'') = Inr ''/work/docs.pdf''"
    by code_simp
  from export_closes_browser[OF b, of "''http://localhost:3000/docs''" "''docs.pdf''"]
  have "last (snd (export demo_run ''http://localhost:3000/docs'' ''docs.pdf'')) = CloseBrowser"
    by blast
  with a b c d show ?thesis by blast
qed

text \<open>
  Claim C10. In a run of \<^verbatim>\<open>export\<close>, \<^verbatim>\<open>replaceInternalLinks\<close> is never called,
  since \<^verbatim>\<open>exportPages\<close> is called without a base URL; every page is printed with
  the \<^verbatim>\<open>href\<close> of every anchor in place.
\<close>

theorem export_never_rewrites_links:
  "filter is_ReplaceInternalLinks (snd (export xs u outputPath)) = []
   \<and> list_all links_untouched (snd (export xs u outputPath))"
proof -
  have t: "list_all is_try_event (snd (snd (export_try xs u outputPath)))"
    by (rule export_try_events)
  have c: "\<not> is_ReplaceInternalLinks CloseBrowser" "links_untouched CloseBrowser"
    by (simp_all add: is_ReplaceInternalLinks_def links_untouched_def)
  have "filter is_ReplaceInternalLinks (snd (snd (export_try xs u outputPath))) = []"
    by (rule filter_none, rule list_all_mono[OF t]) (rule try_event_not_replace)
  moreover have "list_all links_untouched (snd (snd (export_try xs u outputPath)))"
    by (rule list_all_mono[OF t]) (rule try_event_links_untouched)
  ultimately show ?thesis
    using c by (simp add: export_events)
qed

text \<open>
  For comparison: called with a base URL, \<^verbatim>\<open>exportPage\<close> does rewrite the links
  before the page is printed.
\<close>

lemma exportPage_with_baseUrl_example:
  "snd (exportPage content_page ''http://localhost:3000/docs/intro'' ''tmp/0.pdf''
          (Some ''http://localhost:3000'')) =
     [Goto ''http://localhost:3000/docs/intro'', AddStyleTag,
      ReplaceInternalLinks ''http://localhost:3000'',
      PrintPdf ''tmp/0.pdf'' 1260 [None, Some ''https://example.org/'']]"
  by code_simp

lemma export_try_zero_pages:
  assumes "exports_nothing xs u"
  shows "fst (export_try xs u out) = Inl (ExportError ''No pages were successfully exported'' None)
     \<and> filter is_merge_effect (snd (snd (export_try xs u out))) = []"
proof -
  from assms have i: "fst (initialize xs) = Returns ()"
    and v: "fst (verifyDocusaurusRunning xs u) = Inr ()"
    by (simp_all add: exports_nothing_def)
  from assms obtain tempDir where d: "createTempDirectory_result xs = Returns tempDir"
    by (cases "createTempDirectory_result xs") (simp_all add: exports_nothing_def)
  from assms d obtain links where
    l: "fst (collectAllLinks (retry_strategies xs) (collector xs) u) = Inr links"
    by (cases "fst (collectAllLinks (retry_strategies xs) (collector xs) u)")
       (simp_all add: exports_nothing_def)
  from assms d l have z: "fst (exportPages (pages_world xs) links tempDir None) = []"
    by (simp add: exports_nothing_def)
  have i': "initialize xs = (Returns (), True, [LaunchBrowser])"
    using i unfolding initialize_def
    by (cases "launch_result xs"; cases "newContext_result xs"; cases "newPage_result xs")
       simp_all
  have v': "verifyDocusaurusRunning xs u = (Inr (), [Goto u])"
    using v unfolding verifyDocusaurusRunning_def
    by (cases "verify_goto_result xs") simp_all
  obtain ev2 where c: "collectAllLinks (retry_strategies xs) (collector xs) u = (Inr links, ev2)"
    using l by (cases "collectAllLinks (retry_strategies xs) (collector xs) u") simp
  obtain ev3 where p: "exportPages (pages_world xs) links tempDir None = ([], ev3)"
    using z by (cases "exportPages (pages_world xs) links tempDir None") simp
  have "list_all (\<lambda>e. is_Goto e \<or> is_sidebar_event e) ev2"
    using collectAllLinks_events[of "retry_strategies xs" "collector xs" u] c by simp
  then have "list_all (\<lambda>e. \<not> is_merge_effect e) ev2"
  proof (rule list_all_mono)
    fix e assume "is_Goto e \<or> is_sidebar_event e"
    then show "\<not> is_merge_effect e"
      by (cases e) (simp_all add: is_Goto_def is_sidebar_event_def is_merge_effect_def)
  qed
  then have n2: "filter is_merge_effect ev2 = []"
    by (rule filter_none)
  have "list_all is_page_event ev3"
    using exportPages_None_events[of "pages_world xs" links tempDir] p by simp
  then have "list_all (\<lambda>e. \<not> is_merge_effect e) ev3"
  proof (rule list_all_mono)
    fix e assume "is_page_event e"
    then show "\<not> is_merge_effect e"
      by (cases e) (simp_all add: is_page_event_def is_merge_effect_def)
  qed
  then have n3: "filter is_merge_effect ev3 = []"
    by (rule filter_none)
  show ?thesis
    using n2 n3
    by (simp add: export_try_def export_steps_def Let_def i' v' d c p is_merge_effect_def)
qed

lemma merge_typed_error_iff:
  "(\<exists>msg cause. fst (merge env metadata out) = Inl (PdfMergeError msg cause)) \<longleftrightarrow>
     merge_fatal env metadata out"
proof (cases metadata)
  case None
  then show ?thesis by (simp add: merge_def merge_fatal_def)
next
  case (Some md)
  show ?thesis
  proof (cases "md = []")
    case True
    with Some show ?thesis by (simp add: merge_def merge_fatal_def)
  next
    case False
    from merge_nonempty[OF False, of env out] Some False show ?thesis
      by (cases "writes_ok env md out") (auto simp: merge_fatal_def)
  qed
qed

lemma merge_returns_iff:
  "(\<exists>doc. fst (merge env metadata out) = Inr (out, doc)) \<longleftrightarrow> \<not> merge_fatal env metadata out"
proof (cases metadata)
  case None
  then show ?thesis by (simp add: merge_def merge_fatal_def)
next
  case (Some md)
  show ?thesis
  proof (cases "md = []")
    case True
    with Some show ?thesis by (simp add: merge_def merge_fatal_def)
  next
    case False
    from merge_nonempty[OF False, of env out] Some False show ?thesis
      by (cases "writes_ok env md out") (auto simp: merge_fatal_def)
  qed
qed

text \<open>
  Claim C4. \<^verbatim>\<open>merge\<close> raises a \<^verbatim>\<open>PdfMergeError\<close> exactly when the metadata list
  is missing or empty or one of the calls that write the output fails; otherwise it
  returns the output path, whatever happened to the single artifacts; for a missing
  or empty list the message is ``No source files provided for merging''. Apart from that,
  when the batch export returns no page, the \<^verbatim>\<open>try\<close> block of \<^verbatim>\<open>export\<close> ends
  with the \<^verbatim>\<open>ExportError\<close> ``No pages were successfully exported'' before any file is
  read or written for a merge, and this is the error of \<^verbatim>\<open>export\<close> when the browser
  closes normally.
\<close>

theorem merge_and_pipeline_fatal_conditions:
  "((\<exists>msg cause. fst (merge env metadata out) = Inl (PdfMergeError msg cause)) \<longleftrightarrow>
      merge_fatal env metadata out)
   \<and> ((\<exists>doc. fst (merge env metadata out) = Inr (out, doc)) \<longleftrightarrow>
        \<not> merge_fatal env metadata out)
   \<and> (metadata = None \<or> metadata = Some [] \<longrightarrow>
        fst (merge env metadata out) =
          Inl (PdfMergeError ''No source files provided for merging'' None))
   \<and> (exports_nothing xs u \<longrightarrow>
        fst (export_try xs u outputPath) =
          Inl (ExportError ''No pages were successfully exported'' None)
        \<and> filter is_merge_effect (snd (export xs u outputPath)) = []
        \<and> ((\<exists>x. close_result xs = Returns x) \<longrightarrow>
             fst (export xs u outputPath) =
               Inl (ExportError ''No pages were successfully exported'' None)))"
proof -
  have c: "filter is_merge_effect [CloseBrowser] = []"
    by (simp add: is_merge_effect_def)
  have "exports_nothing xs u \<Longrightarrow> \<exists>x. launch_result xs = Returns x"
    unfolding exports_nothing_def initialize_def
    by (cases "launch_result xs") simp_all
  moreover have "metadata = None \<or> metadata = Some [] \<longrightarrow>
        fst (merge env metadata out) =
          Inl (PdfMergeError ''No source files provided for merging'' None)"
    by (auto simp: merge_def)
  ultimately show ?thesis
    using merge_typed_error_iff[of env metadata out] merge_returns_iff[of env metadata out]
      export_try_zero_pages[of xs u outputPath] c
    by (auto simp: export_events export_result split: outcome.splits)
qed

theorem merge_and_pipeline_fatal_conditions_witness:
  "exports_nothing listing_only_run ''http://localhost:3000/docs''
   \<and> fst (export listing_only_run ''http://localhost:3000/docs'' ''docs.pdf'') =
       Inl (ExportError ''No pages were successfully exported'' None)
   \<and> filter is_merge_effect
        (snd (export listing_only_run ''http://localhost:3000/docs'' ''docs.pdf'')) = []
   \<and> fst (merge demo_merge_env (Some []) ''docs.pdf'') =
       Inl (PdfMergeError ''No source files provided for merging'' None)"
proof -
  have e: "exports_nothing listing_only_run ''http://localhost:3000/docs''"
    by code_simp
  have c: "\<exists>x. close_result listing_only_run = Returns x"
    by (simp add: listing_only_run_def)
  have m: "fst (merge demo_merge_env (Some []) ''docs.pdf'') =
       Inl (PdfMergeError ''No source files provided for merging'' None)"
    by (simp add: merge_def)
  from merge_and_pipeline_fatal_conditions
         [of demo_merge_env "Some []" "''docs.pdf''" listing_only_run
             "''http://localhost:3000/docs''" "''docs.pdf''"]
    e c m
  show ?thesis by blast
qed

section \<open>Properties of the bookmark hierarchy\<close>

subsection \<open>The first pass\<close>

text \<open>Reading the stack after a write and after the clearing loop.\<close>

lemma stack_get_clear:
  "stack_get (stack_clear s lv) k = (if lv \<le> k then None else stack_get s k)"
  by (auto simp: stack_get_def stack_clear_def nth_enumerate_eq)

lemma stack_get_set:
  "stack_get (stack_set s k v) k' = (if 0 \<le> k \<and> k' = k then Some v else stack_get s k')"
  by (auto simp: stack_get_def stack_set_def nth_append nth_list_update nat_eq_iff
           split: if_splits)

text \<open>The two nested loops of the first pass are one loop over the flat sequence.\<close>

lemma addFlat_pair: "addFlat (pg, h) = addBookmark pg h"
  by (simp add: addFlat_def fun_eq_iff)

lemma firstPass_page_flat:
  "fold (firstPass_page np) md st = fold addFlat (flat_headings np md) st"
proof (induction md arbitrary: st)
  case Nil
  show ?case by (simp add: flat_headings_def)
next
  case (Cons m md)
  have "firstPass_page np m st =
          fold addFlat (if pageIndex m \<ge> np then [] else map (Pair (pageIndex m)) (headings m)) st"
    by (simp add: firstPass_page_def fold_map comp_def addFlat_pair)
  then show ?case
    using Cons.IH by (simp add: flat_headings_def)
qed

lemma firstPass_flat:
  "firstPass np md = fold addFlat (flat_headings np md) ([], [])"
  by (simp add: firstPass_def firstPass_page_flat)

lemma open_upto_append:
  "j \<le> length ls \<Longrightarrow> open_upto (ls @ xs) m j = open_upto ls m j"
  by (induction j) (simp_all add: nth_append)

lemma addFlat_step:
  "addFlat (pg, h) (infos, stack) =
     (infos @ [\<lparr>dict = \<lparr>Title = htext h, Dest = pg, Parent = None, Prev = None,
                        Next = None, First = None, Last = None, Count = None\<rparr>,
               level = hlevel h,
               parentIndex = (if hlevel h > 1
                              then (case stack_get stack (hlevel h - 2) of
                                      Some p \<Rightarrow> int p | None \<Rightarrow> - 1)
                              else - 1),
               index = length infos\<rparr>],
      stack_clear (stack_set stack (hlevel h - 1) (length infos)) (hlevel h))"
  by (auto simp: addFlat_def addBookmark_def Let_def split: option.splits)

lemma expected_parent_append:
  "k < length ls \<Longrightarrow> expected_parent (ls @ xs) k = expected_parent ls k"
  by (simp add: expected_parent_def open_upto_append nth_append)

lemma fresh_bookmark_append:
  "k < length hs \<Longrightarrow> fresh_bookmark (hs @ xs) k = fresh_bookmark hs k"
  by (simp add: fresh_bookmark_def levels_of_def expected_parent_append nth_append)

text \<open>
  The invariant of the first pass: the bookmarks made so far are the expected ones,
  and the stack holds at level \<open>m\<close> the node open at that level.
\<close>

lemma firstPass_invariant:
  "fst (fold addFlat hs ([], [])) = map (fresh_bookmark hs) [0..<length hs]
   \<and> (\<forall>m\<ge>1. stack_get (snd (fold addFlat hs ([], []))) (m - 1) =
               open_upto (levels_of hs) m (length hs))"
proof (induction hs rule: rev_induct)
  case Nil
  show ?case by (simp add: stack_get_def)
next
  case (snoc x hs)
  obtain pg h where x: "x = (pg, h)" by (cases x)
  obtain infos stack where st: "fold addFlat hs ([], []) = (infos, stack)"
    by (cases "fold addFlat hs ([], [])")
  let ?n = "length hs"
  let ?ls = "levels_of hs"
  let ?lv = "hlevel h"
  from snoc st have infos: "infos = map (fresh_bookmark hs) [0..<?n]"
    and stack: "\<And>m. 1 \<le> m \<Longrightarrow> stack_get stack (m - 1) = open_upto ?ls m ?n"
    by simp_all
  have len: "length infos = ?n" using infos by simp
  have ls': "levels_of (hs @ [x]) = ?ls @ [?lv]"
    by (simp add: levels_of_def x)
  have ls'': "levels_of (hs @ [(pg, h)]) = ?ls @ [?lv]"
    by (simp add: levels_of_def)
  have lsn: "length ?ls = ?n"
    by (simp add: levels_of_def)
  have nth: "(?ls @ [?lv]) ! ?n = ?lv"
    using lsn by (simp add: nth_append)
  have old: "map (fresh_bookmark (hs @ [x])) [0..<?n] = map (fresh_bookmark hs) [0..<?n]"
    by (rule map_cong) (simp_all add: fresh_bookmark_append)
  have par: "expected_parent (?ls @ [?lv]) ?n =
               (if ?lv > 1
                then (case stack_get stack (?lv - 2) of Some p \<Rightarrow> int p | None \<Rightarrow> - 1)
                else - 1)"
  proof (cases "?lv > 1")
    case True
    then have "stack_get stack (?lv - 1 - 1) = open_upto ?ls (?lv - 1) ?n"
      by (intro stack) simp
    then have "stack_get stack (?lv - 2) = open_upto (?ls @ [?lv]) (?lv - 1) ?n"
      by (simp add: open_upto_append lsn)
    with True show ?thesis
      by (simp add: expected_parent_def nth)
  next
    case False
    then show ?thesis by (simp add: expected_parent_def nth)
  qed
  have new: "fresh_bookmark (hs @ [x]) ?n =
      \<lparr>dict = \<lparr>Title = htext h, Dest = pg, Parent = None, Prev = None,
                        Next = None, First = None, Last = None, Count = None\<rparr>,
               level = ?lv,
               parentIndex = (if ?lv > 1
                              then (case stack_get stack (?lv - 2) of
                                      Some p \<Rightarrow> int p | None \<Rightarrow> - 1)
                              else - 1),
               index = length infos\<rparr>"
    using par by (simp add: fresh_bookmark_def ls'' x len)
  have fold_snoc: "fold addFlat (hs @ [x]) ([], []) = addFlat (pg, h) (infos, stack)"
    by (simp add: st x)
  have a: "fst (fold addFlat (hs @ [x]) ([], [])) =
             map (fresh_bookmark (hs @ [x])) [0..<length (hs @ [x])]"
  proof -
    have "fst (fold addFlat (hs @ [x]) ([], [])) = infos @ [fresh_bookmark (hs @ [x]) ?n]"
      by (simp only: fold_snoc addFlat_step new fst_conv)
    also have "\<dots> = map (fresh_bookmark (hs @ [x])) [0..<Suc ?n]"
      using old infos by simp
    finally show ?thesis by simp
  qed
  have b: "stack_get (snd (fold addFlat (hs @ [x]) ([], []))) (m - 1) =
             open_upto (levels_of (hs @ [x])) m (length (hs @ [x]))" if m: "1 \<le> m" for m
  proof -
    have "open_upto (?ls @ [?lv]) m ?n = stack_get stack (m - 1)"
      using stack[OF m] by (simp add: open_upto_append lsn)
    then show ?thesis
      using m unfolding fold_snoc addFlat_step
      by (auto simp: stack_get_clear stack_get_set ls' len nth)
  qed
  from a b show ?case by blast
qed

lemma stack_after_prefix:
  assumes "k \<le> length hs" and "1 \<le> m"
  shows "stack_get (snd (fold addFlat (take k hs) ([], []))) (m - 1) =
           open_upto (levels_of hs) m k"
proof -
  let ?ls = "levels_of hs"
  have t: "levels_of (take k hs) = take k ?ls"
    by (simp add: levels_of_def take_map)
  have l: "length (take k hs) = k" using assms(1) by simp
  have lk: "k \<le> length (take k ?ls)" using assms(1) by (simp add: levels_of_def)
  from firstPass_invariant[of "take k hs"] assms(2)
  have "stack_get (snd (fold addFlat (take k hs) ([], []))) (m - 1) =
          open_upto (take k ?ls) m k"
    by (simp only: t l)
  also have "\<dots> = open_upto (take k ?ls @ drop k ?ls) m k"
    by (rule open_upto_append[OF lk, symmetric])
  finally show ?thesis by simp
qed

lemma addBookmark_parent:
  "parentIndex (last (fst (addBookmark pg h (infos, stack)))) =
     (if hlevel h > 1
      then (case stack_get stack (hlevel h - 2) of Some p \<Rightarrow> int p | None \<Rightarrow> - 1)
      else - 1)"
  using addFlat_step[of pg h infos stack] by (simp add: addFlat_pair)

lemma addBookmark_stack:
  "stack_get (snd (addBookmark pg h (infos, stack))) j =
     (if hlevel h \<le> j then None
      else if j = hlevel h - 1 \<and> 0 \<le> j then Some (length infos)
      else stack_get stack j)"
  using addFlat_step[of pg h infos stack]
  by (auto simp: addFlat_pair stack_get_clear stack_get_set)

lemma firstPass_infos:
  "fst (firstPass np md) =
     map (fresh_bookmark (flat_headings np md)) [0..<length (flat_headings np md)]"
  using firstPass_invariant[of "flat_headings np md"] by (simp add: firstPass_flat)

lemma fresh_level: "k < length hs \<Longrightarrow> level (fresh_bookmark hs k) = levels_of hs ! k"
  by (simp add: fresh_bookmark_def levels_of_def)

lemma fresh_parent: "parentIndex (fresh_bookmark hs k) = expected_parent (levels_of hs) k"
  by (simp add: fresh_bookmark_def)

lemma fresh_unlinked: "unlinked (map (fresh_bookmark hs) [0..<length hs])"
  by (simp add: unlinked_def fresh_bookmark_def)

text \<open>
  The first half of claim C2 holds. Each insertion gives the new bookmark, for a level
  \<open>L > 1\<close>, the node that the stack holds for level \<open>L - 1\<close> as its parent, and no
  parent if \<open>L \<le> 1\<close> or the stack holds none; it then puts the new bookmark on the
  stack at level \<open>L\<close> and leaves no entry at a deeper level. Over a whole sequence
  the stack holds, for every level, the node that is open at that level, so the
  parent of a heading is the last heading before it that is not deeper than \<open>L - 1\<close>,
  when that one is at level \<open>L - 1\<close>.
\<close>

lemma firstPass_parents_and_stack:
  fixes numPages :: nat and metadata :: "exported_page list"
  defines "hs \<equiv> flat_headings numPages metadata"
  defines "ls \<equiv> levels_of hs"
  defines "I \<equiv> fst (firstPass numPages metadata)"
  shows "parentIndex (last (fst (addBookmark pg h (infos, stack)))) =
           (if hlevel h > 1
            then (case stack_get stack (hlevel h - 2) of Some p \<Rightarrow> int p | None \<Rightarrow> - 1)
            else - 1)
     \<and> (\<forall>j. hlevel h \<le> j \<longrightarrow> stack_get (snd (addBookmark pg h (infos, stack))) j = None)
     \<and> (1 \<le> hlevel h \<longrightarrow>
          stack_get (snd (addBookmark pg h (infos, stack))) (hlevel h - 1) =
            Some (length infos))
     \<and> I = fst (fold addFlat hs ([], []))
     \<and> (\<forall>k m. k \<le> length hs \<and> 1 \<le> m \<longrightarrow>
          stack_get (snd (fold addFlat (take k hs) ([], []))) (m - 1) = open_upto ls m k)
     \<and> length I = length hs
     \<and> (\<forall>k<length hs.
          level (I ! k) = ls ! k \<and> parentIndex (I ! k) = expected_parent ls k)"
proof -
  have a: "\<forall>j. hlevel h \<le> j \<longrightarrow> stack_get (snd (addBookmark pg h (infos, stack))) j = None"
    by (simp add: addBookmark_stack)
  have b: "1 \<le> hlevel h \<longrightarrow>
          stack_get (snd (addBookmark pg h (infos, stack))) (hlevel h - 1) = Some (length infos)"
    by (simp add: addBookmark_stack)
  have c: "I = fst (fold addFlat hs ([], []))"
    by (simp add: firstPass_flat hs_def I_def)
  have d: "\<forall>k m. k \<le> length hs \<and> 1 \<le> m \<longrightarrow>
          stack_get (snd (fold addFlat (take k hs) ([], []))) (m - 1) = open_upto ls m k"
    using stack_after_prefix[of _ hs] by (simp add: ls_def)
  have i: "I = map (fresh_bookmark hs) [0..<length hs]"
    unfolding I_def hs_def by (rule firstPass_infos)
  have e: "length I = length hs"
    by (simp add: i)
  have f: "\<forall>k<length hs.
          level (I ! k) = ls ! k \<and> parentIndex (I ! k) = expected_parent ls k"
    by (simp add: i ls_def fresh_level fresh_parent)
  from addBookmark_parent[of pg h infos stack] a b c d e f
  show ?thesis by blast
qed

subsection \<open>One step of the second pass\<close>

text \<open>What the step for bookmark \<open>t\<close> does to the dictionaries.\<close>

lemma setDict_length: "length (setDict S k f) = length S"
  by (simp add: setDict_def)

lemma setDict_nth:
  "k' < length S \<Longrightarrow>
     setDict S k f ! k' = (if k' = k then (S ! k)\<lparr>dict := f (dict (S ! k))\<rparr> else S ! k')"
  by (simp add: setDict_def nth_list_update)

lemma setDict_shape: "same_shape I S \<Longrightarrow> same_shape I (setDict S k f)"
  by (simp add: same_shape_def setDict_length setDict_nth)

lemma linkParent_shape: "same_shape I S \<Longrightarrow> same_shape I (linkParent S t)"
  by (simp add: linkParent_def Let_def setDict_shape)

lemma linkSibling_shape: "same_shape I S \<Longrightarrow> same_shape I (linkSibling S t)"
  by (simp add: linkSibling_def setDict_shape split: option.splits)

lemma linkBookmark_shape: "same_shape I S \<Longrightarrow> same_shape I (linkBookmark t S)"
  by (simp add: linkBookmark_def linkParent_shape linkSibling_shape)

lemma same_shape_refl: "same_shape I I"
  by (simp add: same_shape_def)

lemma linkParent_length: "length (linkParent S t) = length S"
  by (simp add: linkParent_def Let_def setDict_length)

lemma linkSibling_length: "length (linkSibling S t) = length S"
  by (simp add: linkSibling_def setDict_length split: option.splits)

lemma linkParent_unlinked: "unlinked S \<Longrightarrow> unlinked (linkParent S t)"
  by (simp add: unlinked_def linkParent_def Let_def setDict_length setDict_nth ref_def)

lemma linkSibling_unlinked: "unlinked S \<Longrightarrow> unlinked (linkSibling S t)"
  by (simp add: unlinked_def linkSibling_def setDict_length setDict_nth ref_def
           split: option.splits)

lemma linkParent_Count:
  "k < length S \<Longrightarrow>
     countOf (dict (linkParent S t ! k)) =
       (if parentIndex (S ! t) = int k then countOf (dict (S ! k)) + 1
        else countOf (dict (S ! k)))"
  by (auto simp: linkParent_def Let_def setDict_length setDict_nth nat_eq_iff countOf_def)

lemma linkSibling_Count:
  "k < length S \<Longrightarrow> countOf (dict (linkSibling S t ! k)) = countOf (dict (S ! k))"
  by (auto simp: linkSibling_def setDict_length setDict_nth countOf_def split: option.splits)

subsection \<open>The invariant of the second pass\<close>

lemma counted_upto_0:
  assumes "unlinked I" and "\<forall>k<length I. countOf (dict (I ! k)) = 0"
  shows "counted_upto I 0 I"
  using assms by (simp add: counted_upto_def same_shape_refl)

lemma counted_upto_step:
  assumes inv: "counted_upto I t S" and t: "t < length I"
  shows "counted_upto I (Suc t) (linkBookmark t S)"
proof -
  from inv have sh: "same_shape I S" and un: "unlinked S"
    and cnt: "\<And>k. k < length I \<Longrightarrow>
      countOf (dict (S ! k)) = length (filter (\<lambda>c. parentIndex (I ! c) = int k) [0..<t])"
    by (simp_all add: counted_upto_def)
  from sh have len: "length S = length I"
    and par: "parentIndex (S ! t) = parentIndex (I ! t)"
    using t by (simp_all add: same_shape_def)
  have "countOf (dict (linkBookmark t S ! k)) =
          length (filter (\<lambda>c. parentIndex (I ! c) = int k) [0..<Suc t])"
    if k: "k < length I" for k
  proof -
    have "countOf (dict (linkBookmark t S ! k)) = countOf (dict (linkParent S t ! k))"
      using k len by (simp add: linkBookmark_def linkSibling_Count linkParent_length)
    also have "\<dots> = (if parentIndex (I ! t) = int k then countOf (dict (S ! k)) + 1
                       else countOf (dict (S ! k)))"
      using k len by (simp add: linkParent_Count par)
    finally show ?thesis
      using cnt[OF k] by simp
  qed
  moreover have "same_shape I (linkBookmark t S)"
    using sh by (rule linkBookmark_shape)
  moreover have "unlinked (linkBookmark t S)"
    using un by (simp add: linkBookmark_def linkParent_unlinked linkSibling_unlinked)
  ultimately show ?thesis
    by (simp only: counted_upto_def) blast
qed

lemma counted_upto_fold:
  assumes "unlinked I" and "\<forall>k<length I. countOf (dict (I ! k)) = 0" and "t \<le> length I"
  shows "counted_upto I t (fold linkBookmark [0..<t] I)"
  using assms(3)
proof (induction t)
  case 0
  show ?case using counted_upto_0[OF assms(1,2)] by simp
next
  case (Suc t)
  then have "counted_upto I t (fold linkBookmark [0..<t] I)" and "t < length I" by simp_all
  from counted_upto_step[OF this] show ?case by simp
qed

text \<open>
  The second pass counts the children of every bookmark and stores no reference: every
  \<open>Parent\<close>, \<open>Prev\<close>, \<open>Next\<close>, \<open>First\<close> and \<open>Last\<close> entry is as unset after it
  as before.
\<close>

lemma secondPass_counts_only:
  assumes "unlinked I" and "\<forall>k<length I. countOf (dict (I ! k)) = 0"
  shows "counted_upto I (length I) (secondPass I)"
  unfolding secondPass_def by (rule counted_upto_fold[OF assms]) simp

subsection \<open>The hierarchy that \<^verbatim>\<open>buildBookmarkHierarchy\<close> builds\<close>

text \<open>
  For every list of pages and headings: the bookmarks have the levels and parents of
  the first pass and the \<open>Count\<close> entry of each is the number of its children, but
  none has a \<open>Parent\<close>, \<open>Prev\<close>, \<open>Next\<close>, \<open>First\<close> or \<open>Last\<close> entry, so the walk
  from the \<open>First\<close> entry of any bookmark visits nothing.
\<close>

lemma buildBookmarkHierarchy_stores_no_reference:
  fixes numPages :: nat and metadata :: "exported_page list"
  defines "hs \<equiv> flat_headings numPages metadata"
  defines "ls \<equiv> levels_of hs"
  defines "F \<equiv> snd (buildBookmarkHierarchy numPages metadata)"
  shows "length F = length hs"
    and "k < length hs \<Longrightarrow> level (F ! k) = ls ! k"
    and "k < length hs \<Longrightarrow> parentIndex (F ! k) = expected_parent ls k"
    and "k < length hs \<Longrightarrow> countOf (dict (F ! k)) = length (children_of F (int k))"
    and "k < length hs \<Longrightarrow>
           Parent (dict (F ! k)) = None \<and> Prev (dict (F ! k)) = None \<and>
           Next (dict (F ! k)) = None \<and> First (dict (F ! k)) = None \<and>
           Last (dict (F ! k)) = None"
    and "k < length hs \<Longrightarrow> chain fuel F (First (dict (F ! k))) = Some []"
proof -
  let ?I = "map (fresh_bookmark hs) [0..<length hs]"
  have F: "F = secondPass ?I"
    by (simp add: F_def buildBookmarkHierarchy_def Let_def firstPass_infos hs_def)
  have "counted_upto ?I (length ?I) (secondPass ?I)"
    by (rule secondPass_counts_only) (simp_all add: fresh_unlinked fresh_bookmark_def countOf_def)
  then have inv: "counted_upto ?I (length hs) F"
    by (simp add: F)
  from inv have sh: "same_shape ?I F" and un: "unlinked F"
    and cnt: "\<And>k. k < length hs \<Longrightarrow>
      countOf (dict (F ! k)) = length (filter (\<lambda>c. parentIndex (?I ! c) = int k) [0..<length hs])"
    by (simp_all add: counted_upto_def)
  from sh show len: "length F = length hs"
    by (simp add: same_shape_def)
  from sh have shk: "\<And>k. k < length hs \<Longrightarrow>
      level (F ! k) = level (?I ! k) \<and> parentIndex (F ! k) = parentIndex (?I ! k)"
    by (simp add: same_shape_def)
  show "k < length hs \<Longrightarrow> level (F ! k) = ls ! k"
    using shk[of k] by (simp add: fresh_level ls_def)
  show "k < length hs \<Longrightarrow> parentIndex (F ! k) = expected_parent ls k"
    using shk[of k] by (simp add: fresh_parent ls_def)
  have "filter (\<lambda>c. parentIndex (?I ! c) = q) [0..<length hs] =
          filter (\<lambda>c. parentIndex (F ! c) = q) [0..<length hs]" for q
    by (rule filter_cong) (simp_all add: shk)
  then show "k < length hs \<Longrightarrow> countOf (dict (F ! k)) = length (children_of F (int k))"
    using cnt[of k] by (simp add: children_of_def len)
  show e: "k < length hs \<Longrightarrow>
           Parent (dict (F ! k)) = None \<and> Prev (dict (F ! k)) = None \<and>
           Next (dict (F ! k)) = None \<and> First (dict (F ! k)) = None \<and>
           Last (dict (F ! k)) = None"
    using un len by (simp add: unlinked_def)
  show "k < length hs \<Longrightarrow> chain fuel F (First (dict (F ! k))) = Some []"
    using e by simp
qed

text \<open>
  Claim C2, evaluated on two pages whose headings have the levels 1, 2, 2, 3 and 1, 2.
  The levels only go one deeper at a time or return to an earlier level. Levels and
  parents are as the claim says, and the first bookmark has the children 1 and 2 and the
  \<open>Count\<close> 2. But no entry that should refer to another bookmark is set: the walk from
  the \<open>First\<close> entry of the first bookmark ends at once, with no child visited, and
  bookmark 2, the second child, has no \<open>Prev\<close> entry, nor has bookmark 1 a \<open>Next\<close>
  entry.
\<close>

theorem buildBookmarkHierarchy_links_example:
  "well_nested (levels_of (flat_headings 2 demo_outline))
   \<and> map (\<lambda>i. (level i, parentIndex i, Count (dict i)))
        (snd (buildBookmarkHierarchy 2 demo_outline)) =
       [(1, - 1, Some 2), (2, 0, None), (2, 0, Some 1), (3, 2, None), (1, - 1, Some 1),
        (2, 4, None)]
   \<and> map (\<lambda>i. (Parent (dict i), Prev (dict i), Next (dict i), First (dict i), Last (dict i)))
        (snd (buildBookmarkHierarchy 2 demo_outline)) =
       replicate 6 (None, None, None, None, None)
   \<and> children_of (snd (buildBookmarkHierarchy 2 demo_outline)) 0 = [1, 2]
   \<and> countOf (dict (snd (buildBookmarkHierarchy 2 demo_outline) ! 0)) = 2
   \<and> chain 7 (snd (buildBookmarkHierarchy 2 demo_outline))
        (First (dict (snd (buildBookmarkHierarchy 2 demo_outline) ! 0))) = Some []
   \<and> Prev (dict (snd (buildBookmarkHierarchy 2 demo_outline) ! 2)) = None
   \<and> Next (dict (snd (buildBookmarkHierarchy 2 demo_outline) ! 1)) = None"
  by code_simp

end
